theory Spec2Isabelle
  imports Main
begin

section \<open>Data model\<close>

text \<open>
  The help desk keeps three collections (users, categories, tickets) in a document
  store and serves them through Express routes. Each route is modelled as a function
  from the request and the store to a response and the store afterwards.

  An ObjectId is a 96-bit number. The routes receive ids as strings (URL parameters,
  body fields) which the ODM casts: a string of 24 hexadecimal digits denotes the number
  it spells, any other string is a cast error. Two ObjectIds have the same
  \<^verbatim>\<open>toString()\<close> exactly when they are the same number, so the source's
  \<^verbatim>\<open>a.toString() === b.toString()\<close> is equality of ids here. (Some driver
  versions also accept raw 12-byte strings as ids; that form is not modelled.)
  Dates are numbers (milliseconds). A string is a list of characters, each a code unit
  below 256 (the Latin-1 range of a JavaScript string).
\<close>

type_synonym objectId = nat
type_synonym date = nat

text \<open>
  Modelled from the spec: the User schema (models/User.js is not among the sources). A
  user has an id, a name, an email, a role (\<open>user\<close>, \<open>agent\<close> or \<open>admin\<close>; the routes
  compare it as a string) and an active flag.
\<close>

record user =
  u_id :: objectId
  u_name :: string
  u_email :: string
  u_role :: string
  u_isActive :: bool

text \<open>
  Modelled from the spec: the Category schema (models/Category.js is not among the
  sources). A category has an id, a name, a description, a color, an active flag and
  its creator.
\<close>

record category =
  c_id :: objectId
  c_name :: string
  c_description :: "string option"
  c_color :: string
  c_isActive :: bool
  c_createdBy :: objectId

record attachment =
  filename :: string
  originalName :: string
  path :: string
  size :: nat
  uploadedBy :: objectId

record comment =
  content :: string
  author :: objectId
  isInternal :: bool
  cm_createdAt :: date
  cm_updatedAt :: date

record ticket =
  t_id :: objectId
  subject :: string
  description :: string
  category :: objectId
  status :: string
  priority :: string
  createdBy :: objectId
  assignedTo :: "objectId option"
  attachments :: "attachment list"
  comments :: "comment list"
  upvotes :: "objectId list"
  downvotes :: "objectId list"
  tags :: "string list"
  isUrgent :: bool
  dueDate :: "date option"
  resolvedAt :: "date option"
  closedAt :: "date option"
  createdAt :: date
  updatedAt :: date

record db =
  users :: "user list"
  categories :: "category list"
  tickets :: "ticket list"

text \<open>
  A rejected request answers with a status code and a message, or (from the
  express-validator chains) with status 400 and the list of the failed checks' messages.
\<close>

datatype error =
    Http nat string
  | ValidationErrors "string list"

subsection \<open>Strings, ids and the validators of express-validator\<close>

text \<open>
  The validator's \<^verbatim>\<open>trim()\<close> and the schema's \<^verbatim>\<open>trim: true\<close> strip JavaScript
  white space from both ends. Below 256 that is the space, the controls 0x09 to 0x0D
  and the no-break space 0xA0.
\<close>

definition isSpace :: "char \<Rightarrow> bool" where
  "isSpace c = (c = CHR '' '' \<or> c = CHR 0x09 \<or> c = CHR 0x0A \<or> c = CHR 0x0B
                \<or> c = CHR 0x0C \<or> c = CHR 0x0D \<or> c = CHR 0xA0)"

definition trim :: "string \<Rightarrow> string" where
  "trim s = rev (dropWhile isSpace (rev (dropWhile isSpace s)))"

definition isLength :: "nat \<Rightarrow> nat option \<Rightarrow> string \<Rightarrow> bool" where
  "isLength mn mx s =
     (mn \<le> length s \<and> (case mx of None \<Rightarrow> True | Some m \<Rightarrow> length s \<le> m))"

definition hexDigit :: "char \<Rightarrow> nat option" where
  "hexDigit c =
     (let n = of_char c :: nat in
      if 48 \<le> n \<and> n \<le> 57 then Some (n - 48)
      else if 97 \<le> n \<and> n \<le> 102 then Some (n - 87)
      else if 65 \<le> n \<and> n \<le> 70 then Some (n - 55)
      else None)"

text \<open>
  The validator \<^verbatim>\<open>isMongoId\<close> is \<^verbatim>\<open>isHexadecimal(str) && str.length === 24\<close>,
  and \<^verbatim>\<open>isHexadecimal\<close> matches \<^verbatim>\<open>/^(0x|0h)?[0-9A-F]+$/i\<close>: hexadecimal
  digits, at least one, after an optional prefix \<open>0x\<close> or \<open>0h\<close> in either case. So it
  accepts 24 digits and also a prefix with 22 digits. The cast to an ObjectId accepts
  only the 24 digits.
\<close>

definition isHexDigits :: "string \<Rightarrow> bool" where
  "isHexDigits s = (s \<noteq> [] \<and> list_all (\<lambda>c. hexDigit c \<noteq> None) s)"

definition isHexadecimal :: "string \<Rightarrow> bool" where
  "isHexadecimal s =
     (isHexDigits s
      \<or> (case s of
            a # b # rest \<Rightarrow>
              a = CHR ''0''
              \<and> (b = CHR ''x'' \<or> b = CHR ''X'' \<or> b = CHR ''h'' \<or> b = CHR ''H'')
              \<and> isHexDigits rest
          | _ \<Rightarrow> False))"

definition isMongoId :: "string \<Rightarrow> bool" where
  "isMongoId s = (isHexadecimal s \<and> length s = 24)"

definition isObjectIdHex :: "string \<Rightarrow> bool" where
  "isObjectIdHex s = (length s = 24 \<and> list_all (\<lambda>c. hexDigit c \<noteq> None) s)"

definition hexValue :: "string \<Rightarrow> nat" where
  "hexValue s = foldl (\<lambda>acc c. 16 * acc + (case hexDigit c of None \<Rightarrow> 0 | Some d \<Rightarrow> d)) 0 s"

definition castObjectId :: "string \<Rightarrow> objectId option" where
  "castObjectId s = (if isObjectIdHex s then Some (hexValue s) else None)"

text \<open>JavaScript truthiness of an optional string: undefined and the empty string are falsy.\<close>

fun truthy :: "string option \<Rightarrow> bool" where
  "truthy None = False"
| "truthy (Some s) = (s \<noteq> [])"

subsection \<open>Collections\<close>

text \<open>
  \<^verbatim>\<open>Model.findById(id)\<close> casts the id (a cast error rejects the promise; every
  route catches it and answers 500) and returns the document or null.
\<close>

definition serverError :: error where
  "serverError = Http 500 ''Server error''"

definition Ticket_findById :: "ticket list \<Rightarrow> string \<Rightarrow> error + ticket option" where
  "Ticket_findById ts i =
     (case castObjectId i of
        None \<Rightarrow> Inl serverError
      | Some oid \<Rightarrow> Inr (find (\<lambda>t. t_id t = oid) ts))"

definition User_findById :: "user list \<Rightarrow> objectId \<Rightarrow> user option" where
  "User_findById us oid = find (\<lambda>u. u_id u = oid) us"

definition replaceTicket :: "ticket \<Rightarrow> ticket list \<Rightarrow> ticket list" where
  "replaceTicket t ts = map (\<lambda>d. if t_id d = t_id t then t else d) ts"

section \<open>models/Ticket.js: the save hook\<close>

text \<open>
  \<^verbatim>\<open>ticket.save()\<close> on a loaded document \<open>orig\<close> that the handler changed
  into \<open>doc\<close>. The schema's timestamps option refreshes \<open>updatedAt\<close> when the document
  was modified; then the schema's own pre-save hook stamps \<open>resolvedAt\<close> or
  \<open>closedAt\<close>. \<^verbatim>\<open>isModified('status')\<close> holds when the status now differs from
  the loaded one (assigning the value a path already has does not mark it modified).
  A date is an object and so always truthy: \<^verbatim>\<open>!this.resolvedAt\<close> means it is unset.
\<close>

definition preSave :: "date \<Rightarrow> ticket \<Rightarrow> ticket \<Rightarrow> ticket" where
  "preSave now orig doc =
     (if status doc \<noteq> status orig then
        (if status doc = ''resolved'' \<and> resolvedAt doc = None then doc\<lparr>resolvedAt := Some now\<rparr>
         else if status doc = ''closed'' \<and> closedAt doc = None then doc\<lparr>closedAt := Some now\<rparr>
         else doc)
      else doc)"

definition Ticket_save :: "date \<Rightarrow> ticket \<Rightarrow> ticket \<Rightarrow> ticket" where
  "Ticket_save now orig doc =
     preSave now orig (if doc \<noteq> orig then doc\<lparr>updatedAt := now\<rparr> else doc)"

section \<open>middleware/auth.js\<close>

text \<open>
  The bearer token of a request: absent, rejected by \<^verbatim>\<open>jwt.verify\<close> (which throws),
  or verified and carrying a user id.
\<close>

datatype bearer = NoToken | BadToken | Verified objectId

definition protect :: "user list \<Rightarrow> bearer \<Rightarrow> error + user" where
  "protect us b =
     (case b of
        NoToken \<Rightarrow> Inl (Http 401 ''Not authorized to access this route'')
      | BadToken \<Rightarrow> Inl (Http 401 ''Not authorized to access this route'')
      | Verified uid \<Rightarrow>
          (case User_findById us uid of
             None \<Rightarrow> Inl (Http 401 ''User not found'')
           | Some u \<Rightarrow>
               if \<not> u_isActive u then Inl (Http 401 ''Account is deactivated'')
               else Inr u))"

definition authorize :: "string list \<Rightarrow> user \<Rightarrow> error + unit" where
  "authorize roles u =
     (if u_role u \<notin> set roles
      then Inl (Http 403 (''User role '' @ u_role u @ '' is not authorized to access this route''))
      else Inr ())"

text \<open>
  \<^verbatim>\<open>canAccessTicket\<close> loads the ticket with \<open>createdBy\<close> and \<open>assignedTo\<close>
  populated. Populating replaces a reference by the user document, or by null when no
  such user is stored; reading \<^verbatim>\<open>ticket.createdBy._id\<close> of a null creator throws,
  which the middleware's catch turns into 500. A null or unset assignee is falsy.
\<close>

definition canAccessTicket :: "user list \<Rightarrow> ticket list \<Rightarrow> user \<Rightarrow> string \<Rightarrow> error + ticket" where
  "canAccessTicket us ts usr i =
     (case Ticket_findById ts i of
        Inl e \<Rightarrow> Inl e
      | Inr None \<Rightarrow> Inl (Http 404 ''Ticket not found'')
      | Inr (Some t) \<Rightarrow>
          (case User_findById us (createdBy t) of
             None \<Rightarrow> Inl serverError
           | Some creator \<Rightarrow>
               let isOwner = (u_id creator = u_id usr);
                   isAssigned =
                     (case assignedTo t of
                        None \<Rightarrow> False
                      | Some a \<Rightarrow>
                          (case User_findById us a of
                             None \<Rightarrow> False
                           | Some assignee \<Rightarrow> u_id assignee = u_id usr));
                   isAdmin = (u_role usr = ''admin'');
                   isAgent = (u_role usr = ''agent'')
               in if isOwner \<or> isAssigned \<or> isAdmin \<or> isAgent then Inr t
                  else Inl (Http 403 ''Not authorized to access this ticket'')))"

section \<open>routes/tickets.js: voting\<close>

text \<open>\<^verbatim>\<open>Array.prototype.findIndex\<close>: the first index whose element passes, or -1.\<close>

fun findIndex :: "('a \<Rightarrow> bool) \<Rightarrow> 'a list \<Rightarrow> int" where
  "findIndex P [] = - 1"
| "findIndex P (x # xs) =
     (if P x then 0 else (let i = findIndex P xs in if i > - 1 then i + 1 else - 1))"

text \<open>\<^verbatim>\<open>xs.splice(i, 1)\<close> for an index \<open>i > -1\<close>, the only way the route calls it.\<close>

definition splice1 :: "int \<Rightarrow> 'a list \<Rightarrow> 'a list" where
  "splice1 i xs = take (nat i) xs @ drop (nat i + 1) xs"

text \<open>
  The body of the vote route between loading the ticket and saving it: the new vote
  arrays, or the 400 answer for a vote type that is neither \<open>upvote\<close> nor \<open>downvote\<close>
  (an absent \<open>voteType\<close> is \<open>None\<close>).
\<close>

definition castVote :: "ticket \<Rightarrow> objectId \<Rightarrow> string option \<Rightarrow> error + ticket" where
  "castVote t userId voteType =
     (let upvoteIndex = findIndex (\<lambda>i. i = userId) (upvotes t);
          downvoteIndex = findIndex (\<lambda>i. i = userId) (downvotes t)
      in if voteType = Some ''upvote'' then
           (if upvoteIndex > - 1 then Inr (t\<lparr>upvotes := splice1 upvoteIndex (upvotes t)\<rparr>)
            else
              (let t1 = t\<lparr>upvotes := upvotes t @ [userId]\<rparr>
               in if downvoteIndex > - 1
                  then Inr (t1\<lparr>downvotes := splice1 downvoteIndex (downvotes t1)\<rparr>)
                  else Inr t1))
         else if voteType = Some ''downvote'' then
           (if downvoteIndex > - 1 then Inr (t\<lparr>downvotes := splice1 downvoteIndex (downvotes t)\<rparr>)
            else
              (let t1 = t\<lparr>downvotes := downvotes t @ [userId]\<rparr>
               in if upvoteIndex > - 1
                  then Inr (t1\<lparr>upvotes := splice1 upvoteIndex (upvotes t1)\<rparr>)
                  else Inr t1))
         else Inl (Http 400 ''Invalid vote type''))"

record voteCounts =
  vc_upvotes :: nat
  vc_downvotes :: nat
  vc_voteCount :: int

definition voteCount :: "ticket \<Rightarrow> int" where
  "voteCount t = int (length (upvotes t)) - int (length (downvotes t))"

definition post_vote ::
  "bearer \<Rightarrow> string \<Rightarrow> string option \<Rightarrow> date \<Rightarrow> db \<Rightarrow> (error + voteCounts) \<times> db" where
  "post_vote b i voteType now d =
     (case protect (users d) b of
        Inl e \<Rightarrow> (Inl e, d)
      | Inr usr \<Rightarrow>
          (case Ticket_findById (tickets d) i of
             Inl e \<Rightarrow> (Inl e, d)
           | Inr None \<Rightarrow> (Inl (Http 404 ''Ticket not found''), d)
           | Inr (Some t) \<Rightarrow>
               (case castVote t (u_id usr) voteType of
                  Inl e \<Rightarrow> (Inl e, d)
                | Inr t1 \<Rightarrow>
                    let t2 = Ticket_save now t t1
                    in (Inr \<lparr>vc_upvotes = length (upvotes t2),
                             vc_downvotes = length (downvotes t2),
                             vc_voteCount = voteCount t2\<rparr>,
                        d\<lparr>tickets := replaceTicket t2 (tickets d)\<rparr>))))"

section \<open>routes/tickets.js: reading and updating a ticket\<close>

definition get_ticket :: "bearer \<Rightarrow> string \<Rightarrow> db \<Rightarrow> error + ticket" where
  "get_ticket b i d =
     (case protect (users d) b of
        Inl e \<Rightarrow> Inl e
      | Inr usr \<Rightarrow>
          (case canAccessTicket (users d) (tickets d) usr i of
             Inl e \<Rightarrow> Inl e
           | Inr _ \<Rightarrow>
               (case Ticket_findById (tickets d) i of
                  Inl e \<Rightarrow> Inl e
                | Inr None \<Rightarrow> Inl (Http 404 ''Ticket not found'')
                | Inr (Some t) \<Rightarrow> Inr t)))"

text \<open>
  The JSON body of an update. Every field is a string or absent. A validation chain
  \<^verbatim>\<open>body(f).optional()...\<close> skips an absent field; \<^verbatim>\<open>trim()\<close> in a chain
  also replaces the field in \<^verbatim>\<open>req.body\<close> by the trimmed string.
\<close>

record updateBody =
  b_subject :: "string option"
  b_description :: "string option"
  b_status :: "string option"
  b_priority :: "string option"
  b_assignedTo :: "string option"
  b_category :: "string option"

definition optionalCheck :: "string option \<Rightarrow> (string \<Rightarrow> bool) \<Rightarrow> string \<Rightarrow> string list" where
  "optionalCheck v ok msg = (case v of None \<Rightarrow> [] | Some s \<Rightarrow> if ok s then [] else [msg])"

definition statuses :: "string list" where
  "statuses = [''open'', ''in-progress'', ''resolved'', ''closed'']"

definition priorities :: "string list" where
  "priorities = [''low'', ''medium'', ''high'', ''urgent'']"

definition validateUpdate :: "updateBody \<Rightarrow> string list" where
  "validateUpdate body =
     optionalCheck (map_option trim (b_subject body)) (isLength 5 (Some 200))
       ''Subject must be between 5 and 200 characters''
     @ optionalCheck (map_option trim (b_description body)) (isLength 10 None)
       ''Description must be at least 10 characters''
     @ optionalCheck (b_status body) (\<lambda>s. s \<in> set statuses) ''Invalid status''
     @ optionalCheck (b_priority body) (\<lambda>s. s \<in> set priorities) ''Invalid priority level''
     @ optionalCheck (b_assignedTo body) isMongoId ''Valid user ID is required''"

text \<open>
  The handler's assignments, in the source's order. Assigning a string to an ObjectId
  path casts it; a cast error makes \<^verbatim>\<open>save()\<close> reject, which the handler's catch
  answers with 500 (\<open>None\<close> here).
\<close>

definition applyUpdate :: "user \<Rightarrow> updateBody \<Rightarrow> ticket \<Rightarrow> ticket option" where
  "applyUpdate usr body t =
     (let subject' = map_option trim (b_subject body);
          description' = map_option trim (b_description body);
          isAssigned = (assignedTo t = Some (u_id usr));
          isAdmin = (u_role usr = ''admin'');
          isAgent = (u_role usr = ''agent'');
          workflow = (isAgent \<or> isAdmin \<or> isAssigned);
          t1 = (if workflow \<and> truthy (b_status body) then t\<lparr>status := the (b_status body)\<rparr> else t);
          t2 = (if workflow \<and> truthy (b_priority body)
                then t1\<lparr>priority := the (b_priority body)\<rparr> else t1);
          t3 = (if workflow \<and> truthy (b_assignedTo body)
                then t2\<lparr>assignedTo := castObjectId (the (b_assignedTo body))\<rparr> else t2);
          t4 = (if truthy subject' then t3\<lparr>subject := the subject'\<rparr> else t3);
          t5 = (if truthy description' then t4\<lparr>description := the description'\<rparr> else t4)
      in if workflow \<and> truthy (b_assignedTo body) \<and> castObjectId (the (b_assignedTo body)) = None
         then None
         else if truthy (b_category body)
         then (case castObjectId (the (b_category body)) of
                 None \<Rightarrow> None
               | Some c \<Rightarrow> Some (t5\<lparr>category := c\<rparr>))
         else Some t5)"

definition put_ticket ::
  "bearer \<Rightarrow> string \<Rightarrow> updateBody \<Rightarrow> date \<Rightarrow> db \<Rightarrow> (error + ticket) \<times> db" where
  "put_ticket b i body now d =
     (case protect (users d) b of
        Inl e \<Rightarrow> (Inl e, d)
      | Inr usr \<Rightarrow>
          (case canAccessTicket (users d) (tickets d) usr i of
             Inl e \<Rightarrow> (Inl e, d)
           | Inr _ \<Rightarrow>
               if validateUpdate body \<noteq> [] then (Inl (ValidationErrors (validateUpdate body)), d)
               else
                 (case Ticket_findById (tickets d) i of
                    Inl e \<Rightarrow> (Inl e, d)
                  | Inr None \<Rightarrow> (Inl (Http 404 ''Ticket not found''), d)
                  | Inr (Some t) \<Rightarrow>
                      let isOwner = (createdBy t = u_id usr)
                      in if u_role usr = ''user'' \<and> \<not> isOwner
                         then (Inl (Http 403 ''Not authorized to update this ticket''), d)
                         else
                           (case applyUpdate usr body t of
                              None \<Rightarrow> (Inl serverError, d)
                            | Some t1 \<Rightarrow>
                                let updatedTicket = Ticket_save now t t1
                                in (Inr updatedTicket,
                                    d\<lparr>tickets := replaceTicket updatedTicket (tickets d)\<rparr>)))))"

section \<open>routes/tickets.js: comments\<close>

text \<open>
  The body of a comment request: \<open>content\<close> (required: an absent field is validated as
  the empty string) and the optional boolean \<open>isInternal\<close>, false when absent.
\<close>

record commentBody =
  cb_content :: "string option"
  cb_isInternal :: "bool option"

definition validateComment :: "commentBody \<Rightarrow> string list" where
  "validateComment body =
     (if isLength 1 None (trim (case cb_content body of None \<Rightarrow> [] | Some s \<Rightarrow> s)) then []
      else [''Comment content is required''])"

definition post_comment ::
  "bearer \<Rightarrow> string \<Rightarrow> commentBody \<Rightarrow> date \<Rightarrow> db \<Rightarrow> (error + comment) \<times> db" where
  "post_comment b i body now d =
     (case protect (users d) b of
        Inl e \<Rightarrow> (Inl e, d)
      | Inr usr \<Rightarrow>
          (case canAccessTicket (users d) (tickets d) usr i of
             Inl e \<Rightarrow> (Inl e, d)
           | Inr _ \<Rightarrow>
               if validateComment body \<noteq> [] then (Inl (ValidationErrors (validateComment body)), d)
               else
                 (let content' = trim (case cb_content body of None \<Rightarrow> [] | Some s \<Rightarrow> s);
                      isInternal' = (case cb_isInternal body of None \<Rightarrow> False | Some f \<Rightarrow> f)
                  in case Ticket_findById (tickets d) i of
                       Inl e \<Rightarrow> (Inl e, d)
                     | Inr None \<Rightarrow> (Inl (Http 404 ''Ticket not found''), d)
                     | Inr (Some t) \<Rightarrow>
                         if isInternal' \<and> u_role usr \<notin> set [''agent'', ''admin'']
                         then (Inl (Http 403 ''Not authorized to add internal comments''), d)
                         else
                           (let c = \<lparr>content = content', author = u_id usr, isInternal = isInternal',
                                     cm_createdAt = now, cm_updatedAt = now\<rparr>;
                                t1 = Ticket_save now t (t\<lparr>comments := comments t @ [c]\<rparr>)
                            in (Inr (last (comments t1)),
                                d\<lparr>tickets := replaceTicket t1 (tickets d)\<rparr>)))))"

section \<open>routes/tickets.js: creating and deleting\<close>

text \<open>
  \<^verbatim>\<open>tags.split(',')\<close>: the pieces between commas (one piece, the whole string, when
  there is no comma).
\<close>

fun splitComma :: "string \<Rightarrow> string list" where
  "splitComma [] = [[]]"
| "splitComma (c # cs) =
     (if c = CHR '','' then [] # splitComma cs
      else (case splitComma cs of [] \<Rightarrow> [[c]] | w # ws \<Rightarrow> (c # w) # ws))"

record createBody =
  nb_subject :: "string option"
  nb_description :: "string option"
  nb_category :: "string option"
  nb_priority :: "string option"
  nb_tags :: "string option"

record uploadedFile =
  f_filename :: string
  f_originalname :: string
  f_path :: string
  f_size :: nat

definition requiredCheck :: "string option \<Rightarrow> (string \<Rightarrow> bool) \<Rightarrow> string \<Rightarrow> string list" where
  "requiredCheck v ok msg = (if ok (case v of None \<Rightarrow> [] | Some s \<Rightarrow> s) then [] else [msg])"

definition validateCreate :: "createBody \<Rightarrow> string list" where
  "validateCreate body =
     requiredCheck (map_option trim (nb_subject body)) (isLength 5 (Some 200))
       ''Subject must be between 5 and 200 characters''
     @ requiredCheck (map_option trim (nb_description body)) (isLength 10 None)
       ''Description must be at least 10 characters''
     @ requiredCheck (nb_category body) isMongoId ''Valid category ID is required''
     @ optionalCheck (nb_priority body) (\<lambda>s. s \<in> set priorities) ''Invalid priority level''"

text \<open>
  \<^verbatim>\<open>Ticket.create\<close> receives only the fields the route lists; the schema's defaults
  fill the rest (status \<open>open\<close>, no votes, no comments). The store assigns the new
  document's id, \<open>newId\<close> here; an id that is already taken is a duplicate-key error.
\<close>

definition Ticket_create ::
  "objectId \<Rightarrow> date \<Rightarrow> user \<Rightarrow> createBody \<Rightarrow> objectId \<Rightarrow> uploadedFile list \<Rightarrow> ticket" where
  "Ticket_create newId now usr body cat files =
     \<lparr>t_id = newId,
      subject = trim (the (nb_subject body)),
      description = trim (the (nb_description body)),
      category = cat,
      status = ''open'',
      priority = (if truthy (nb_priority body) then the (nb_priority body) else ''medium''),
      createdBy = u_id usr,
      assignedTo = None,
      attachments =
        map (\<lambda>f. \<lparr>filename = f_filename f, originalName = f_originalname f,
                   path = f_path f, size = f_size f, uploadedBy = u_id usr\<rparr>) files,
      comments = [],
      upvotes = [],
      downvotes = [],
      tags = (if truthy (nb_tags body) then map trim (splitComma (the (nb_tags body))) else []),
      isUrgent = False,
      dueDate = None,
      resolvedAt = None,
      closedAt = None,
      createdAt = now,
      updatedAt = now\<rparr>"

definition post_ticket ::
  "bearer \<Rightarrow> createBody \<Rightarrow> uploadedFile list \<Rightarrow> objectId \<Rightarrow> date \<Rightarrow> db \<Rightarrow> (error + ticket) \<times> db" where
  "post_ticket b body files newId now d =
     (case protect (users d) b of
        Inl e \<Rightarrow> (Inl e, d)
      | Inr usr \<Rightarrow>
          if validateCreate body \<noteq> [] then (Inl (ValidationErrors (validateCreate body)), d)
          else
            (case castObjectId (the (nb_category body)) of
               None \<Rightarrow> (Inl serverError, d)
             | Some cat \<Rightarrow>
                 (case find (\<lambda>c. c_id c = cat) (categories d) of
                    None \<Rightarrow> (Inl (Http 400 ''Invalid category''), d)
                  | Some categoryExists \<Rightarrow>
                      if \<not> c_isActive categoryExists then (Inl (Http 400 ''Invalid category''), d)
                      else if newId \<in> t_id ` set (tickets d) then (Inl serverError, d)
                      else
                        (let t = Ticket_create newId now usr body cat files
                         in (Inr t, d\<lparr>tickets := tickets d @ [t]\<rparr>)))))"

definition delete_ticket :: "bearer \<Rightarrow> string \<Rightarrow> db \<Rightarrow> (error + string) \<times> db" where
  "delete_ticket b i d =
     (case protect (users d) b of
        Inl e \<Rightarrow> (Inl e, d)
      | Inr usr \<Rightarrow>
          (case authorize [''admin''] usr of
             Inl e \<Rightarrow> (Inl e, d)
           | Inr _ \<Rightarrow>
               (case Ticket_findById (tickets d) i of
                  Inl e \<Rightarrow> (Inl e, d)
                | Inr None \<Rightarrow> (Inl (Http 404 ''Ticket not found''), d)
                | Inr (Some t) \<Rightarrow>
                    (Inr ''Ticket deleted successfully'',
                     d\<lparr>tickets := filter (\<lambda>x. t_id x \<noteq> t_id t) (tickets d)\<rparr>))))"

section \<open>Regular expressions of the store\<close>

text \<open>
  The routes hand two kinds of pattern to the store, which matches them with its
  regular-expression engine, ignoring case: the search text as it arrives, found anywhere
  in a field, and \<^verbatim>\<open>^name$\<close> around a category name as it arrives. Neither is
  escaped. The fragment modelled here is the patterns of ASCII characters that are the
  dot (any character but a line feed) or ordinary characters (each matching itself,
  letters in either case); a pattern with any other syntax character, or with a character
  outside ASCII, is outside the fragment, and a route that would need it has no value in
  this model (\<open>None\<close>).
\<close>

definition syntaxChars :: "char list" where
  "syntaxChars = [CHR ''^'', CHR ''$'', CHR 0x5C, CHR ''.'', CHR ''*'', CHR ''+'', CHR ''?'',
                  CHR ''('', CHR '')'', CHR ''['', CHR '']'', CHR ''{'', CHR ''}'', CHR ''|'']"

definition inFragment :: "string \<Rightarrow> bool" where
  "inFragment p =
     list_all (\<lambda>c. (of_char c :: nat) < 128 \<and> (c = CHR ''.'' \<or> c \<notin> set syntaxChars)) p"

definition toUpper :: "char \<Rightarrow> char" where
  "toUpper c = (let n = of_char c :: nat in if 97 \<le> n \<and> n \<le> 122 then char_of (n - 32) else c)"

definition atomMatch :: "char \<Rightarrow> char \<Rightarrow> bool" where
  "atomMatch p c = (if p = CHR ''.'' then c \<noteq> CHR 0x0A else toUpper p = toUpper c)"

fun matchExact :: "string \<Rightarrow> string \<Rightarrow> bool" where
  "matchExact [] [] = True"
| "matchExact (p # ps) (c # cs) = (atomMatch p c \<and> matchExact ps cs)"
| "matchExact _ _ = False"

fun matchPrefix :: "string \<Rightarrow> string \<Rightarrow> bool" where
  "matchPrefix [] _ = True"
| "matchPrefix (p # ps) (c # cs) = (atomMatch p c \<and> matchPrefix ps cs)"
| "matchPrefix _ [] = False"

fun matchAnywhere :: "string \<Rightarrow> string \<Rightarrow> bool" where
  "matchAnywhere p [] = matchPrefix p []"
| "matchAnywhere p (c # cs) = (matchPrefix p (c # cs) \<or> matchAnywhere p cs)"

text \<open>
  \<^verbatim>\<open>^p$\<close>: the dollar of the store's engine matches at the very end and also before
  a line feed that ends the text.
\<close>

definition matchAnchored :: "string \<Rightarrow> string \<Rightarrow> bool" where
  "matchAnchored p s =
     (matchExact p s \<or> (s \<noteq> [] \<and> last s = CHR 0x0A \<and> matchExact p (butlast s)))"

section \<open>routes/tickets.js: listing\<close>

record listQuery =
  q_page :: "int option"
  q_limit :: "int option"
  q_status :: "string option"
  q_priority :: "string option"
  q_category :: "string option"
  q_search :: "string option"
  q_sortBy :: "string option"
  q_sortOrder :: "string option"
  q_assignedTo :: "string option"
  q_createdBy :: "string option"

text \<open>The filter document the route builds; an absent condition is \<open>None\<close>.\<close>

record ticketFilter =
  m_createdBy :: "objectId option"
  m_assignedTo :: "objectId option"
  m_status :: "string option"
  m_priority :: "string option"
  m_category :: "objectId option"
  m_search :: "string option"

text \<open>
  The filter is built in the source's order: first the condition of the requester's
  role, then one condition per query parameter that is truthy, each assignment replacing
  what the path held. The strings given for \<open>category\<close> and \<open>createdBy\<close> are cast to ids
  when the query runs; a cast error (\<open>None\<close> here) is answered with 500.
\<close>

definition buildFilter :: "user \<Rightarrow> listQuery \<Rightarrow> ticketFilter option" where
  "buildFilter usr q =
     (let q0 = \<lparr>m_createdBy = None, m_assignedTo = None, m_status = None, m_priority = None,
                m_category = None, m_search = None\<rparr>;
          q1 = (if u_role usr = ''user'' then q0\<lparr>m_createdBy := Some (u_id usr)\<rparr>
                else if u_role usr = ''agent'' then
                  (if q_assignedTo q = Some ''me'' then q0\<lparr>m_assignedTo := Some (u_id usr)\<rparr> else q0)
                else q0);
          q2 = (if truthy (q_status q) then q1\<lparr>m_status := q_status q\<rparr> else q1);
          q3 = (if truthy (q_priority q) then q2\<lparr>m_priority := q_priority q\<rparr> else q2);
          q4 = (if truthy (q_category q) then q3\<lparr>m_category := castObjectId (the (q_category q))\<rparr>
                else q3);
          q5 = (if truthy (q_createdBy q) then q4\<lparr>m_createdBy := castObjectId (the (q_createdBy q))\<rparr>
                else q4);
          q6 = (if truthy (q_search q) then q5\<lparr>m_search := q_search q\<rparr> else q5)
      in if (truthy (q_category q) \<and> castObjectId (the (q_category q)) = None)
            \<or> (truthy (q_createdBy q) \<and> castObjectId (the (q_createdBy q)) = None)
         then None else Some q6)"

definition holds :: "'a option \<Rightarrow> ('a \<Rightarrow> bool) \<Rightarrow> bool" where
  "holds c P = (case c of None \<Rightarrow> True | Some v \<Rightarrow> P v)"

definition matchesFilter :: "ticketFilter \<Rightarrow> ticket \<Rightarrow> bool" where
  "matchesFilter f t =
     (holds (m_createdBy f) (\<lambda>v. createdBy t = v)
      \<and> holds (m_assignedTo f) (\<lambda>v. assignedTo t = Some v)
      \<and> holds (m_status f) (\<lambda>v. status t = v)
      \<and> holds (m_priority f) (\<lambda>v. priority t = v)
      \<and> holds (m_category f) (\<lambda>v. category t = v)
      \<and> holds (m_search f) (\<lambda>p. matchAnywhere p (subject t) \<or> matchAnywhere p (description t)))"

text \<open>
  Sorting, skipping and limiting are the store's. Sorting is modelled for the two
  timestamp paths (the default is \<open>createdAt\<close>, newest first); for any other path the
  stored order is kept. A negative skip is an error of the store; a limit of 0 is no
  limit and a negative limit counts as its absolute value.
\<close>

definition sortTickets :: "string \<Rightarrow> int \<Rightarrow> ticket list \<Rightarrow> ticket list" where
  "sortTickets sortBy dir ts =
     (if sortBy = ''createdAt'' then sort_key (\<lambda>t. dir * int (createdAt t)) ts
      else if sortBy = ''updatedAt'' then sort_key (\<lambda>t. dir * int (updatedAt t)) ts
      else ts)"

record ticketPage =
  pg_tickets :: "ticket list"
  pg_currentPage :: int
  pg_total :: nat

definition get_tickets :: "bearer \<Rightarrow> listQuery \<Rightarrow> db \<Rightarrow> (error + ticketPage) option" where
  "get_tickets b q d =
     (case protect (users d) b of
        Inl e \<Rightarrow> Some (Inl e)
      | Inr usr \<Rightarrow>
          (let page = (case q_page q of None \<Rightarrow> 1 | Some n \<Rightarrow> n);
               limit = (case q_limit q of None \<Rightarrow> 10 | Some n \<Rightarrow> n);
               sortBy = (case q_sortBy q of None \<Rightarrow> ''createdAt'' | Some s \<Rightarrow> s);
               sortOrder = (case q_sortOrder q of None \<Rightarrow> ''desc'' | Some s \<Rightarrow> s);
               dir = (if sortOrder = ''desc'' then - 1 else 1)
           in case buildFilter usr q of
                None \<Rightarrow> Some (Inl serverError)
              | Some f \<Rightarrow>
                  if \<not> holds (m_search f) inFragment then None
                  else if (page - 1) * limit < 0 then Some (Inl serverError)
                  else
                    (let found = sortTickets sortBy dir (filter (matchesFilter f) (tickets d));
                         skipped = drop (nat ((page - 1) * limit)) found;
                         paged = (if limit * 1 = 0 then skipped else take (nat \<bar>limit * 1\<bar>) skipped)
                     in Some (Inr \<lparr>pg_tickets = paged, pg_currentPage = page,
                                   pg_total = length (filter (matchesFilter f) (tickets d))\<rparr>))))"

section \<open>routes/categories.js: creating a category\<close>

record categoryBody =
  cg_name :: "string option"
  cg_description :: "string option"
  cg_color :: "string option"

text \<open>\<^verbatim>\<open>/^#[0-9A-F]{6}$/i\<close>, matched by the route's validator.\<close>

definition isHexColor :: "string \<Rightarrow> bool" where
  "isHexColor s =
     (case s of [] \<Rightarrow> False
      | c # cs \<Rightarrow> c = CHR ''#'' \<and> length cs = 6 \<and> list_all (\<lambda>x. hexDigit x \<noteq> None) cs)"

definition validateCategory :: "categoryBody \<Rightarrow> string list" where
  "validateCategory body =
     requiredCheck (map_option trim (cg_name body)) (isLength 2 (Some 50))
       ''Category name must be between 2 and 50 characters''
     @ optionalCheck (map_option trim (cg_description body)) (isLength 0 (Some 200))
       ''Description cannot be more than 200 characters''
     @ optionalCheck (cg_color body) isHexColor ''Please enter a valid hex color''"

text \<open>
  Modelled from the spec: the Category schema (models/Category.js is not among the
  sources). A category has a name, a description, a color, an active flag (true for a
  new category) and its creator; the store assigns the id, \<open>newId\<close> here, and an id
  already taken is a duplicate-key error.
\<close>

definition Category_create ::
  "objectId \<Rightarrow> string \<Rightarrow> string option \<Rightarrow> string \<Rightarrow> objectId \<Rightarrow> category" where
  "Category_create newId name descr color creator =
     \<lparr>c_id = newId, c_name = name, c_description = descr, c_color = color,
      c_isActive = True, c_createdBy = creator\<rparr>"

definition post_category ::
  "bearer \<Rightarrow> categoryBody \<Rightarrow> objectId \<Rightarrow> db \<Rightarrow> ((error + category) \<times> db) option" where
  "post_category b body newId d =
     (case protect (users d) b of
        Inl e \<Rightarrow> Some (Inl e, d)
      | Inr usr \<Rightarrow>
          (case authorize [''admin''] usr of
             Inl e \<Rightarrow> Some (Inl e, d)
           | Inr _ \<Rightarrow>
               if validateCategory body \<noteq> [] then Some (Inl (ValidationErrors (validateCategory body)), d)
               else
                 (let name = trim (the (cg_name body));
                      description' = map_option trim (cg_description body);
                      color = cg_color body
                  in if \<not> inFragment name then None
                     else
                       (case find (\<lambda>c. matchAnchored name (c_name c)) (categories d) of
                          Some categoryExists \<Rightarrow> Some (Inl (Http 400 ''Category already exists''), d)
                        | None \<Rightarrow>
                            if newId \<in> c_id ` set (categories d) then Some (Inl serverError, d)
                            else
                              (let c = Category_create newId name description'
                                         (if truthy color then the color else ''#3B82F6'') (u_id usr)
                               in Some (Inr c, d\<lparr>categories := categories d @ [c]\<rparr>))))))"

text \<open>Equality of two names when the case of letters is ignored.\<close>

definition sameNameIgnoringCase :: "string \<Rightarrow> string \<Rightarrow> bool" where
  "sameNameIgnoringCase a b = (map toUpper a = map toUpper b)"

section \<open>Sequences of requests\<close>

text \<open>The requests that write to the ticket collection, each with the time it is served at.\<close>

datatype request =
    PostTicket bearer createBody "uploadedFile list" objectId date
  | PutTicket bearer string updateBody date
  | PostComment bearer string commentBody date
  | PostVote bearer string "string option" date
  | DeleteTicket bearer string

fun step :: "request \<Rightarrow> db \<Rightarrow> db" where
  "step (PostTicket b body files newId now) d = snd (post_ticket b body files newId now d)"
| "step (PutTicket b i body now) d = snd (put_ticket b i body now d)"
| "step (PostComment b i body now) d = snd (post_comment b i body now d)"
| "step (PostVote b i voteType now) d = snd (post_vote b i voteType now d)"
| "step (DeleteTicket b i) d = snd (delete_ticket b i d)"

definition run :: "request list \<Rightarrow> db \<Rightarrow> db" where
  "run rs d = foldl (\<lambda>s r. step r s) d rs"

fun isDelete :: "request \<Rightarrow> bool" where
  "isDelete (DeleteTicket _ _) = True"
| "isDelete _ = False"

section \<open>Well-formed vote arrays\<close>

text \<open>
  The two vote arrays of a ticket represent sets: no id twice in either, none in both.
\<close>

definition votesOk :: "ticket \<Rightarrow> bool" where
  "votesOk t = (distinct (upvotes t) \<and> distinct (downvotes t)
                \<and> set (upvotes t) \<inter> set (downvotes t) = {})"

section \<open>Kept timestamps\<close>

text \<open>
  A later state \<open>t'\<close> of a ticket keeps the stamps of an earlier state \<open>t\<close>: whichever of
  \<open>resolvedAt\<close> and \<open>closedAt\<close> is set in \<open>t\<close> has the same value in \<open>t'\<close>.
\<close>

definition stampsKept :: "ticket \<Rightarrow> ticket \<Rightarrow> bool" where
  "stampsKept t t' =
     ((case resolvedAt t of None \<Rightarrow> True | Some x \<Rightarrow> resolvedAt t' = Some x)
      \<and> (case closedAt t of None \<Rightarrow> True | Some y \<Rightarrow> closedAt t' = Some y))"

section \<open>An example store\<close>

text \<open>
  Four users (a plain user, an agent, an admin, a second plain user), one category and
  one ticket that the first user filed; the theorems below are instantiated on it.
\<close>

definition alice :: user where
  "alice = \<lparr>u_id = 161, u_name = ''Alice'', u_email = ''alice@example.com'',
            u_role = ''user'', u_isActive = True\<rparr>"

definition bob :: user where
  "bob = \<lparr>u_id = 178, u_name = ''Bob'', u_email = ''bob@example.com'',
          u_role = ''agent'', u_isActive = True\<rparr>"

definition carol :: user where
  "carol = \<lparr>u_id = 195, u_name = ''Carol'', u_email = ''carol@example.com'',
            u_role = ''admin'', u_isActive = True\<rparr>"

definition dave :: user where
  "dave = \<lparr>u_id = 212, u_name = ''Dave'', u_email = ''dave@example.com'',
           u_role = ''user'', u_isActive = True\<rparr>"

definition general :: category where
  "general = \<lparr>c_id = 12, c_name = ''abc'', c_description = None, c_color = ''#3B82F6'',
              c_isActive = True, c_createdBy = 195\<rparr>"

definition staff :: "user list" where
  "staff = [alice, bob, carol, dave]"

definition store0 :: db where
  "store0 = \<lparr>users = staff, categories = [general], tickets = []\<rparr>"

definition printerBody :: createBody where
  "printerBody = \<lparr>nb_subject = Some ''Printer is broken'',
                   nb_description = Some ''The printer on floor 2 jams.'',
                   nb_category = Some ''00000000000000000000000c'',
                   nb_priority = None, nb_tags = None\<rparr>"

definition printer :: ticket where
  "printer = \<lparr>t_id = 16, subject = ''Printer is broken'',
              description = ''The printer on floor 2 jams.'', category = 12,
              status = ''open'', priority = ''medium'', createdBy = 161, assignedTo = None,
              attachments = [], comments = [], upvotes = [], downvotes = [], tags = [],
              isUrgent = False, dueDate = None, resolvedAt = None, closedAt = None,
              createdAt = 100, updatedAt = 100\<rparr>"

definition store1 :: db where
  "store1 = store0\<lparr>tickets := [printer]\<rparr>"

definition store2 :: db where
  "store2 = store0\<lparr>tickets := [printer\<lparr>downvotes := [212], updatedAt := 101\<rparr>]\<rparr>"

definition store3 :: db where
  "store3 = store0\<lparr>tickets := [printer\<lparr>upvotes := [212], updatedAt := 102\<rparr>]\<rparr>"

definition store4 :: db where
  "store4 = store0\<lparr>tickets := [printer\<lparr>updatedAt := 103\<rparr>]\<rparr>"

definition storeA :: db where
  "storeA = store0\<lparr>tickets := [printer\<lparr>assignedTo := Some 212, updatedAt := 104\<rparr>]\<rparr>"

definition daveId :: string where
  "daveId = ''0000000000000000000000d4''"


definition printerId :: string where
  "printerId = ''000000000000000000000010''"

definition voteRun :: "request list" where
  "voteRun = [PostTicket (Verified 161) printerBody [] 16 100,
              PostVote (Verified 212) printerId (Some ''downvote'') 101,
              PostVote (Verified 212) printerId (Some ''upvote'') 102,
              PostVote (Verified 212) printerId (Some ''upvote'') 103]"

definition noUpdate :: updateBody where
  "noUpdate = \<lparr>b_subject = None, b_description = None, b_status = None, b_priority = None,
                b_assignedTo = None, b_category = None\<rparr>"

definition noQuery :: listQuery where
  "noQuery = \<lparr>q_page = None, q_limit = None, q_status = None, q_priority = None,
               q_category = None, q_search = None, q_sortBy = None, q_sortOrder = None,
               q_assignedTo = None, q_createdBy = None\<rparr>"


definition resolveBody :: updateBody where
  "resolveBody = noUpdate\<lparr>b_status := Some ''resolved''\<rparr>"

definition reopenBody :: updateBody where
  "reopenBody = noUpdate\<lparr>b_status := Some ''open''\<rparr>"

definition storeR :: db where
  "storeR = store0\<lparr>tickets := [printer\<lparr>status := ''resolved'', updatedAt := 110,
                                          resolvedAt := Some 110\<rparr>]\<rparr>"

definition storeO :: db where
  "storeO = store0\<lparr>tickets := [printer\<lparr>status := ''open'', updatedAt := 120,
                                          resolvedAt := Some 110\<rparr>]\<rparr>"

definition storeR2 :: db where
  "storeR2 = store0\<lparr>tickets := [printer\<lparr>status := ''resolved'', updatedAt := 130,
                                           resolvedAt := Some 110\<rparr>]\<rparr>"

definition cycle :: "request list" where
  "cycle = [PutTicket (Verified 178) printerId reopenBody 120,
            PutTicket (Verified 178) printerId resolveBody 130]"


definition aliceId :: string where
  "aliceId = ''0000000000000000000000a1''"

definition dotBody :: categoryBody where
  "dotBody = \<lparr>cg_name = Some ''a.c'', cg_description = None, cg_color = None\<rparr>"


definition storeOrphan :: db where
  "storeOrphan = \<lparr>users = [bob, carol, dave], categories = [general], tickets = [printer]\<rparr>"


definition prefixedId :: string where
  "prefixedId = ''0x00000000000000000000d4''"

section \<open>Facts about the example store\<close>

lemma cast_printerId: "castObjectId printerId = Some 16"
  by (simp add: castObjectId_def printerId_def isObjectIdHex_def hexDigit_def hexValue_def)

lemma find_printer: "Ticket_findById (tickets store1) printerId = Inr (Some printer)"
  by (simp add: Ticket_findById_def cast_printerId store1_def printer_def)

lemma protect_alice: "protect staff (Verified 161) = Inr alice"
  by (simp add: protect_def User_findById_def staff_def alice_def)

lemma protect_bob: "protect staff (Verified 178) = Inr bob"
  by (simp add: protect_def User_findById_def staff_def alice_def bob_def)

lemma protect_carol: "protect staff (Verified 195) = Inr carol"
  by (simp add: protect_def User_findById_def staff_def alice_def bob_def carol_def)

lemma protect_dave: "protect staff (Verified 212) = Inr dave"
  by (simp add: protect_def User_findById_def staff_def alice_def bob_def carol_def dave_def)

lemma users_stores:
  "users store0 = staff" "users store1 = staff" "users store2 = staff" "users store3 = staff"
  "users store4 = staff"
  by (simp_all add: store0_def store1_def store2_def store3_def store4_def)

lemma findIndex_found: "(findIndex P xs > - 1) = (\<exists>x \<in> set xs. P x)"
  by (induction xs) (auto simp: Let_def)

lemma findIndex_ge: "findIndex P xs \<ge> - 1"
  by (induction xs) (auto simp: Let_def)

lemma splice1_findIndex: "u \<in> set xs \<Longrightarrow> splice1 (findIndex (\<lambda>i. i = u) xs) xs = remove1 u xs"
proof (induction xs)
  case Nil
  then show ?case by simp
next
  case (Cons x xs)
  show ?case
  proof (cases "x = u")
    case True
    then show ?thesis by (simp add: splice1_def)
  next
    case False
    with Cons.prems have mem: "u \<in> set xs" by simp
    then have pos: "findIndex (\<lambda>i. i = u) xs > - 1" by (simp add: findIndex_found)
    then have n: "nat (findIndex (\<lambda>i. i = u) xs + 1) = Suc (nat (findIndex (\<lambda>i. i = u) xs))"
      by simp
    from Cons.IH [OF mem] have "splice1 (findIndex (\<lambda>i. i = u) xs) xs = remove1 u xs" .
    with False pos n show ?thesis by (simp add: splice1_def Let_def)
  qed
qed

lemma castVote_up:
  "castVote t u (Some ''upvote'') =
     Inr (if u \<in> set (upvotes t) then t\<lparr>upvotes := remove1 u (upvotes t)\<rparr>
          else if u \<in> set (downvotes t)
          then t\<lparr>upvotes := upvotes t @ [u], downvotes := remove1 u (downvotes t)\<rparr>
          else t\<lparr>upvotes := upvotes t @ [u]\<rparr>)"
  by (simp add: castVote_def Let_def findIndex_found splice1_findIndex)

lemma castVote_down:
  "castVote t u (Some ''downvote'') =
     Inr (if u \<in> set (downvotes t) then t\<lparr>downvotes := remove1 u (downvotes t)\<rparr>
          else if u \<in> set (upvotes t)
          then t\<lparr>downvotes := downvotes t @ [u], upvotes := remove1 u (upvotes t)\<rparr>
          else t\<lparr>downvotes := downvotes t @ [u]\<rparr>)"
  by (simp add: castVote_def Let_def findIndex_found splice1_findIndex)

lemma castVote_cases:
  "castVote t u v = Inr t' \<Longrightarrow> v = Some ''upvote'' \<or> v = Some ''downvote''"
  by (auto simp: castVote_def Let_def split: if_splits)

lemma castVote_votesOk:
  assumes "castVote t u v = Inr t'" and "votesOk t"
  shows "votesOk t'"
proof -
  from assms(1) consider "v = Some ''upvote''" | "v = Some ''downvote''"
    using castVote_cases by blast
  then show ?thesis
  proof cases
    case 1
    with assms show ?thesis
      by (auto simp: castVote_up votesOk_def split: if_splits)
  next
    case 2
    with assms show ?thesis
      by (auto simp: castVote_down votesOk_def split: if_splits)
  qed
qed

lemma castVote_frame:
  "castVote t u v = Inr t' \<Longrightarrow> t_id t' = t_id t \<and> resolvedAt t' = resolvedAt t \<and> closedAt t' = closedAt t \<and> status t' = status t"
  by (auto simp: castVote_def Let_def split: if_splits)

section \<open>What each route does to the ticket collection\<close>

lemma findById_mem:
  "Ticket_findById ts i = Inr (Some t) \<Longrightarrow> t \<in> set ts \<and> castObjectId i = Some (t_id t)"
  by (auto simp: Ticket_findById_def find_Some_iff split: option.splits)

lemma save_frame:
  "t_id (Ticket_save now orig doc) = t_id doc"
  "upvotes (Ticket_save now orig doc) = upvotes doc"
  "downvotes (Ticket_save now orig doc) = downvotes doc"
  "comments (Ticket_save now orig doc) = comments doc"
  "subject (Ticket_save now orig doc) = subject doc"
  "description (Ticket_save now orig doc) = description doc"
  "status (Ticket_save now orig doc) = status doc"
  "priority (Ticket_save now orig doc) = priority doc"
  "assignedTo (Ticket_save now orig doc) = assignedTo doc"
  "category (Ticket_save now orig doc) = category doc"
  "createdBy (Ticket_save now orig doc) = createdBy doc"
  by (cases "doc = orig"; simp add: Ticket_save_def preSave_def)+

lemma save_stamps:
  "resolvedAt doc = Some x \<Longrightarrow> resolvedAt (Ticket_save now orig doc) = Some x"
  "closedAt doc = Some y \<Longrightarrow> closedAt (Ticket_save now orig doc) = Some y"
  by (cases "doc = orig"; simp add: Ticket_save_def preSave_def)+

lemma applyUpdate_shape:
  "applyUpdate usr body t = Some t1 \<Longrightarrow>
   \<exists>st pr a sj ds c. t1 = t\<lparr>status := st, priority := pr, assignedTo := a, subject := sj,
                             description := ds, category := c\<rparr>"
proof -
  assume a: "applyUpdate usr body t = Some t1"
  define wf where "wf = (u_role usr = ''agent'' \<or> u_role usr = ''admin'' \<or> assignedTo t = Some (u_id usr))"
  define t1' where "t1' = (if wf \<and> truthy (b_status body) then t\<lparr>status := the (b_status body)\<rparr> else t)"
  define t2 where "t2 = (if wf \<and> truthy (b_priority body) then t1'\<lparr>priority := the (b_priority body)\<rparr> else t1')"
  define t3 where "t3 = (if wf \<and> truthy (b_assignedTo body) then t2\<lparr>assignedTo := castObjectId (the (b_assignedTo body))\<rparr> else t2)"
  define t4 where "t4 = (if truthy (map_option trim (b_subject body)) then t3\<lparr>subject := the (map_option trim (b_subject body))\<rparr> else t3)"
  define t5 where "t5 = (if truthy (map_option trim (b_description body)) then t4\<lparr>description := the (map_option trim (b_description body))\<rparr> else t4)"
  have s1: "\<exists>st. t1' = t\<lparr>status := st\<rparr>"
    unfolding t1'_def by (cases "wf \<and> truthy (b_status body)") (auto intro: exI[of _ "status t"])
  have s2: "\<exists>pr. t2 = t1'\<lparr>priority := pr\<rparr>"
    unfolding t2_def by (cases "wf \<and> truthy (b_priority body)") (auto intro: exI[of _ "priority t1'"])
  have s3: "\<exists>x. t3 = t2\<lparr>assignedTo := x\<rparr>"
    unfolding t3_def by (cases "wf \<and> truthy (b_assignedTo body)") (auto intro: exI[of _ "assignedTo t2"])
  have s4: "\<exists>x. t4 = t3\<lparr>subject := x\<rparr>"
    unfolding t4_def by (cases "truthy (map_option trim (b_subject body))") (auto intro: exI[of _ "subject t3"])
  have s5: "\<exists>x. t5 = t4\<lparr>description := x\<rparr>"
    unfolding t5_def by (cases "truthy (map_option trim (b_description body))") (auto intro: exI[of _ "description t4"])
  have eq: "applyUpdate usr body t =
      (if wf \<and> truthy (b_assignedTo body) \<and> castObjectId (the (b_assignedTo body)) = None
         then None
         else if truthy (b_category body)
         then (case castObjectId (the (b_category body)) of
                 None \<Rightarrow> None
               | Some c \<Rightarrow> Some (t5\<lparr>category := c\<rparr>))
         else Some t5)"
    unfolding applyUpdate_def Let_def t5_def t4_def t3_def t2_def t1'_def wf_def by (rule refl)
  from a have "t1 = t5 \<or> (\<exists>c. t1 = t5\<lparr>category := c\<rparr>)"
    unfolding eq by (auto split: if_splits option.splits)
  then have s6: "\<exists>c. t1 = t5\<lparr>category := c\<rparr>"
    by (auto intro: exI[of _ "category t5"])
  from s1 s2 s3 s4 s5 s6 show ?thesis by (elim exE) (simp, blast)
qed


lemma post_vote_effect:
  "snd (post_vote b i v now d) = d
   \<or> (\<exists>usr t t1. protect (users d) b = Inr usr \<and> Ticket_findById (tickets d) i = Inr (Some t)
         \<and> castVote t (u_id usr) v = Inr t1
         \<and> snd (post_vote b i v now d) = d\<lparr>tickets := replaceTicket (Ticket_save now t t1) (tickets d)\<rparr>)"
  by (simp add: post_vote_def Let_def split: sum.splits option.splits)


lemma put_ticket_effect:
  "snd (put_ticket b i body now d) = d
   \<or> (\<exists>usr t t1. protect (users d) b = Inr usr \<and> Ticket_findById (tickets d) i = Inr (Some t)
         \<and> applyUpdate usr body t = Some t1
         \<and> snd (put_ticket b i body now d) = d\<lparr>tickets := replaceTicket (Ticket_save now t t1) (tickets d)\<rparr>)"
  by (simp add: put_ticket_def Let_def split: sum.splits option.splits)

lemma post_comment_effect:
  "snd (post_comment b i body now d) = d
   \<or> (\<exists>usr t c. protect (users d) b = Inr usr \<and> Ticket_findById (tickets d) i = Inr (Some t)
         \<and> snd (post_comment b i body now d) =
             d\<lparr>tickets := replaceTicket (Ticket_save now t (t\<lparr>comments := comments t @ [c]\<rparr>)) (tickets d)\<rparr>)"
  by (simp add: post_comment_def Let_def split: sum.splits option.splits) blast

lemma delete_ticket_effect:
  "set (tickets (snd (delete_ticket b i d))) \<subseteq> set (tickets d)"
  by (auto simp: delete_ticket_def split: sum.splits option.splits)

lemma post_ticket_effect:
  "snd (post_ticket b body files newId now d) = d
   \<or> (\<exists>usr cat. newId \<notin> t_id ` set (tickets d)
         \<and> snd (post_ticket b body files newId now d) =
             d\<lparr>tickets := tickets d @ [Ticket_create newId now usr body cat files]\<rparr>)"
  by (simp add: post_ticket_def Let_def split: sum.splits option.splits) blast

lemma validate_printerBody: "validateCreate printerBody = []"
  by (simp add: validateCreate_def requiredCheck_def optionalCheck_def printerBody_def trim_def
      isSpace_def isLength_def isMongoId_def isHexadecimal_def isHexDigits_def hexDigit_def)

lemma cast_generalId: "castObjectId ''00000000000000000000000c'' = Some 12"
  by (simp add: castObjectId_def isObjectIdHex_def hexDigit_def hexValue_def)

lemma post_printer:
  "post_ticket (Verified 161) printerBody [] 16 100 store0 = (Inr printer, store1)"
proof -
  have c: "castObjectId (the (nb_category printerBody)) = Some 12"
    by (simp add: printerBody_def cast_generalId)
  have t: "Ticket_create 16 100 alice printerBody 12 [] = printer"
    by (simp add: Ticket_create_def printerBody_def printer_def alice_def trim_def isSpace_def)
  show ?thesis
    by (simp add: post_ticket_def protect_alice validate_printerBody c t Let_def
        store0_def store1_def general_def)
qed

lemma replaceTicket_all:
  "P t' \<Longrightarrow> \<forall>x \<in> set ts. P x \<Longrightarrow> \<forall>x \<in> set (replaceTicket t' ts). P x"
  by (auto simp: replaceTicket_def)

lemma save_votesOk: "votesOk doc \<Longrightarrow> votesOk (Ticket_save now orig doc)"
  by (simp add: votesOk_def save_frame)

lemma step_votesOk:
  assumes "\<forall>t \<in> set (tickets d). votesOk t"
  shows "\<forall>t \<in> set (tickets (step r d)). votesOk t"
proof (cases r)
  case (PostTicket b body files newId now)
  have new: "votesOk (Ticket_create newId now usr body cat files)" for usr cat
    by (simp add: votesOk_def Ticket_create_def)
  from post_ticket_effect [of b body files newId now d] show ?thesis
  proof
    assume "snd (post_ticket b body files newId now d) = d"
    with assms PostTicket show ?thesis by simp
  next
    assume "\<exists>usr cat. newId \<notin> t_id ` set (tickets d)
         \<and> snd (post_ticket b body files newId now d) =
             d\<lparr>tickets := tickets d @ [Ticket_create newId now usr body cat files]\<rparr>"
    then obtain usr cat where "snd (post_ticket b body files newId now d) =
             d\<lparr>tickets := tickets d @ [Ticket_create newId now usr body cat files]\<rparr>"
      by blast
    with PostTicket have "tickets (step r d) = tickets d @ [Ticket_create newId now usr body cat files]"
      by simp
    with assms new [of usr cat] show ?thesis by simp
  qed
next
  case (PutTicket b i body now)
  from put_ticket_effect [of b i body now d] show ?thesis
  proof
    assume "snd (put_ticket b i body now d) = d"
    with assms PutTicket show ?thesis by simp
  next
    assume "\<exists>usr t t1. protect (users d) b = Inr usr \<and> Ticket_findById (tickets d) i = Inr (Some t)
         \<and> applyUpdate usr body t = Some t1
         \<and> snd (put_ticket b i body now d) = d\<lparr>tickets := replaceTicket (Ticket_save now t t1) (tickets d)\<rparr>"
    then obtain usr t t1 where f: "Ticket_findById (tickets d) i = Inr (Some t)"
      and a: "applyUpdate usr body t = Some t1"
      and e: "snd (put_ticket b i body now d) = d\<lparr>tickets := replaceTicket (Ticket_save now t t1) (tickets d)\<rparr>"
      by blast
    from f assms have "votesOk t" using findById_mem by blast
    moreover from applyUpdate_shape [OF a] have "upvotes t1 = upvotes t" "downvotes t1 = downvotes t"
      by auto
    ultimately have "votesOk t1" by (simp add: votesOk_def)
    then have "votesOk (Ticket_save now t t1)" by (rule save_votesOk)
    from replaceTicket_all [of votesOk, OF this assms] e PutTicket show ?thesis by simp
  qed
next
  case (PostComment b i body now)
  from post_comment_effect [of b i body now d] show ?thesis
  proof
    assume "snd (post_comment b i body now d) = d"
    with assms PostComment show ?thesis by simp
  next
    assume "\<exists>usr t c. protect (users d) b = Inr usr \<and> Ticket_findById (tickets d) i = Inr (Some t)
         \<and> snd (post_comment b i body now d) =
             d\<lparr>tickets := replaceTicket (Ticket_save now t (t\<lparr>comments := comments t @ [c]\<rparr>)) (tickets d)\<rparr>"
    then obtain t c where f: "Ticket_findById (tickets d) i = Inr (Some t)"
      and e: "snd (post_comment b i body now d) =
             d\<lparr>tickets := replaceTicket (Ticket_save now t (t\<lparr>comments := comments t @ [c]\<rparr>)) (tickets d)\<rparr>"
      by blast
    from f assms have "votesOk t" using findById_mem by blast
    then have "votesOk (t\<lparr>comments := comments t @ [c]\<rparr>)" by (simp add: votesOk_def)
    then have "votesOk (Ticket_save now t (t\<lparr>comments := comments t @ [c]\<rparr>))" by (rule save_votesOk)
    from replaceTicket_all [of votesOk, OF this assms] e PostComment show ?thesis by simp
  qed
next
  case (PostVote b i v now)
  from post_vote_effect [of b i v now d] show ?thesis
  proof
    assume "snd (post_vote b i v now d) = d"
    with assms PostVote show ?thesis by simp
  next
    assume "\<exists>usr t t1. protect (users d) b = Inr usr \<and> Ticket_findById (tickets d) i = Inr (Some t)
         \<and> castVote t (u_id usr) v = Inr t1
         \<and> snd (post_vote b i v now d) = d\<lparr>tickets := replaceTicket (Ticket_save now t t1) (tickets d)\<rparr>"
    then obtain usr t t1 where p: "protect (users d) b = Inr usr"
      and f: "Ticket_findById (tickets d) i = Inr (Some t)"
      and a: "castVote t (u_id usr) v = Inr t1"
      and e: "snd (post_vote b i v now d) = d\<lparr>tickets := replaceTicket (Ticket_save now t t1) (tickets d)\<rparr>"
      by (elim exE conjE)
    from f assms have "votesOk t" using findById_mem by blast
    with a have "votesOk t1" by (rule castVote_votesOk)
    then have "votesOk (Ticket_save now t t1)" by (rule save_votesOk)
    from replaceTicket_all [of votesOk, OF this assms] e PostVote show ?thesis by simp
  qed
next
  case (DeleteTicket b i)
  from delete_ticket_effect [of b i d] DeleteTicket
  have "set (tickets (step r d)) \<subseteq> set (tickets d)" by simp
  with assms show ?thesis by blast
qed

lemma run_votesOk:
  "\<forall>t \<in> set (tickets d). votesOk t \<Longrightarrow> \<forall>t \<in> set (tickets (run rs d)). votesOk t"
  unfolding run_def
proof (induction rs arbitrary: d)
  case Nil
  then show ?case by simp
next
  case (Cons r rs)
  from Cons.prems have "\<forall>t \<in> set (tickets (step r d)). votesOk t" by (rule step_votesOk)
  then show ?case using Cons.IH by simp
qed


section \<open>Votes on the example store\<close>

lemma post_vote_ok:
  assumes "protect (users d) b = Inr usr"
      and "Ticket_findById (tickets d) i = Inr (Some t)"
      and "castVote t (u_id usr) v = Inr t1"
  shows "post_vote b i v now d =
           (Inr \<lparr>vc_upvotes = length (upvotes t1), vc_downvotes = length (downvotes t1),
                 vc_voteCount = voteCount t1\<rparr>,
            d\<lparr>tickets := replaceTicket (Ticket_save now t t1) (tickets d)\<rparr>)"
  using assms by (simp add: post_vote_def Let_def save_frame voteCount_def)

lemma find_single:
  "t_id t = 16 \<Longrightarrow> Ticket_findById [t] printerId = Inr (Some t)"
  by (simp add: Ticket_findById_def cast_printerId)

lemma tickets_stores:
  "tickets store1 = [printer]"
  "tickets store2 = [printer\<lparr>downvotes := [212], updatedAt := 101\<rparr>]"
  "tickets store3 = [printer\<lparr>upvotes := [212], updatedAt := 102\<rparr>]"
  "tickets store4 = [printer\<lparr>updatedAt := 103\<rparr>]"
  by (simp_all add: store0_def store1_def store2_def store3_def store4_def)

lemma printer_id: "t_id printer = 16"
  by (simp add: printer_def)

lemma vote_down_dave:
  "snd (post_vote (Verified 212) printerId (Some ''downvote'') 101 store1) = store2"
proof -
  have c: "castVote printer (u_id dave) (Some ''downvote'') = Inr (printer\<lparr>downvotes := [212]\<rparr>)"
    by (simp add: castVote_down printer_def dave_def)
  have s: "Ticket_save 101 printer (printer\<lparr>downvotes := [212]\<rparr>)
             = printer\<lparr>downvotes := [212], updatedAt := 101\<rparr>"
    by (simp add: Ticket_save_def preSave_def printer_def)
  have p: "protect (users store1) (Verified 212) = Inr dave"
    by (simp add: users_stores protect_dave)
  have f: "Ticket_findById (tickets store1) printerId = Inr (Some printer)"
    by (simp add: tickets_stores find_single printer_id)
  show ?thesis
    unfolding post_vote_ok [OF p f c] s
    by (simp add: store1_def store2_def replaceTicket_def)
qed

lemma vote_up_dave:
  "snd (post_vote (Verified 212) printerId (Some ''upvote'') 102 store2) = store3"
proof -
  let ?t = "printer\<lparr>downvotes := [212], updatedAt := 101\<rparr>"
  have c: "castVote ?t (u_id dave) (Some ''upvote'')
             = Inr (printer\<lparr>downvotes := [], updatedAt := 101, upvotes := [212]\<rparr>)"
    by (simp add: castVote_up printer_def dave_def)
  have s: "Ticket_save 102 ?t (printer\<lparr>downvotes := [], updatedAt := 101, upvotes := [212]\<rparr>)
             = printer\<lparr>upvotes := [212], updatedAt := 102\<rparr>"
    by (simp add: Ticket_save_def preSave_def printer_def)
  have p: "protect (users store2) (Verified 212) = Inr dave"
    by (simp add: users_stores protect_dave)
  have f: "Ticket_findById (tickets store2) printerId = Inr (Some ?t)"
    by (simp add: tickets_stores find_single printer_id)
  show ?thesis
    unfolding post_vote_ok [OF p f c] s
    by (simp add: store2_def store3_def replaceTicket_def)
qed

lemma vote_up_again_dave:
  "snd (post_vote (Verified 212) printerId (Some ''upvote'') 103 store3) = store4"
proof -
  let ?t = "printer\<lparr>upvotes := [212], updatedAt := 102\<rparr>"
  have c: "castVote ?t (u_id dave) (Some ''upvote'')
             = Inr (printer\<lparr>upvotes := [], updatedAt := 102\<rparr>)"
    by (simp add: castVote_up printer_def dave_def)
  have s: "Ticket_save 103 ?t (printer\<lparr>upvotes := [], updatedAt := 102\<rparr>)
             = printer\<lparr>updatedAt := 103\<rparr>"
    by (simp add: Ticket_save_def preSave_def printer_def)
  have p: "protect (users store3) (Verified 212) = Inr dave"
    by (simp add: users_stores protect_dave)
  have f: "Ticket_findById (tickets store3) printerId = Inr (Some ?t)"
    by (simp add: tickets_stores find_single printer_id)
  show ?thesis
    unfolding post_vote_ok [OF p f c] s
    by (simp add: store3_def store4_def replaceTicket_def)
qed

lemma run_voteRun:
  "run (take 2 voteRun) store0 = store2" "run (take 3 voteRun) store0 = store3"
  "run voteRun store0 = store4"
  by (simp_all add: run_def voteRun_def post_printer vote_down_dave vote_up_dave vote_up_again_dave)

lemma find_replaceTicket:
  "find (\<lambda>x. t_id x = k) (replaceTicket t' ts)
     = map_option (\<lambda>d. if t_id d = t_id t' then t' else d) (find (\<lambda>x. t_id x = k) ts)"
  by (induction ts) (auto simp: replaceTicket_def)

lemma findById_replaceTicket:
  assumes "Ticket_findById ts i = Inr (Some t)" and "t_id t' = t_id t"
  shows "Ticket_findById (replaceTicket t' ts) i = Inr (Some t')"
  using assms
  by (auto simp: Ticket_findById_def find_replaceTicket split: option.splits)

lemma castVote_twice_up:
  assumes "votesOk t" and "castVote t u (Some ''upvote'') = Inr t1"
      and "upvotes s = upvotes t1" and "downvotes s = downvotes t1"
      and "castVote s u (Some ''upvote'') = Inr t2"
  shows "set (upvotes t2) = set (upvotes t) \<and> set (downvotes t2) = set (downvotes t) - {u}"
  using assms unfolding castVote_up votesOk_def
  by (auto split: if_splits)

lemma castVote_twice_down:
  assumes "votesOk t" and "castVote t u (Some ''downvote'') = Inr t1"
      and "upvotes s = upvotes t1" and "downvotes s = downvotes t1"
      and "castVote s u (Some ''downvote'') = Inr t2"
  shows "set (downvotes t2) = set (downvotes t) \<and> set (upvotes t2) = set (upvotes t) - {u}"
  using assms unfolding castVote_down votesOk_def
  by (auto split: if_splits)

lemma castVote_total:
  "v = Some ''upvote'' \<or> v = Some ''downvote'' \<Longrightarrow> \<exists>t1. castVote t u v = Inr t1"
  by (auto simp: castVote_up castVote_down)


section \<open>The resolved and closed stamps\<close>

lemma stampsKept_refl: "stampsKept t t"
  by (simp add: stampsKept_def split: option.splits)

lemma stampsKept_trans: "stampsKept a b \<Longrightarrow> stampsKept b c \<Longrightarrow> stampsKept a c"
  by (auto simp: stampsKept_def split: option.splits)

lemma stampsKept_save:
  assumes "resolvedAt doc = resolvedAt orig" and "closedAt doc = closedAt orig"
  shows "stampsKept orig (Ticket_save now orig doc)"
  using assms save_stamps [of doc _ now orig]
  by (auto simp: stampsKept_def split: option.splits)

lemma findById_replace_kept:
  assumes i: "Ticket_findById ts i = Inr (Some t)"
      and j: "Ticket_findById ts j = Inr (Some t0)"
      and ids: "t_id s = t_id t0"
      and k: "stampsKept t0 s"
  shows "\<exists>t'. Ticket_findById (replaceTicket s ts) i = Inr (Some t') \<and> stampsKept t t'"
proof (cases "t_id t = t_id t0")
  case True
  from i j True have "t = t0"
    by (auto simp: Ticket_findById_def find_Some_iff split: option.splits)
       (metis linorder_neqE_nat)
  moreover from True ids have "t_id s = t_id t" by simp
  from findById_replaceTicket [OF i this] have "Ticket_findById (replaceTicket s ts) i = Inr (Some s)" .
  ultimately show ?thesis using k by blast
next
  case False
  with i ids have "Ticket_findById (replaceTicket s ts) i = Inr (Some t)"
    by (auto simp: Ticket_findById_def find_replaceTicket split: option.splits)
  then show ?thesis using stampsKept_refl by blast
qed

lemma find_app:
  "find P (xs @ ys) = (case find P xs of None \<Rightarrow> find P ys | Some x \<Rightarrow> Some x)"
  by (induction xs) auto

lemma findById_append:
  assumes "Ticket_findById ts i = Inr (Some t)"
  shows "Ticket_findById (ts @ [n]) i = Inr (Some t)"
  using assms by (auto simp: Ticket_findById_def find_app split: option.splits)


lemma step_stampsKept:
  assumes nd: "\<not> isDelete r" and f: "Ticket_findById (tickets d) i = Inr (Some t)"
  shows "\<exists>t'. Ticket_findById (tickets (step r d)) i = Inr (Some t') \<and> stampsKept t t'"
proof (cases r)
  case (PostTicket b body files newId now)
  from post_ticket_effect [of b body files newId now d] show ?thesis
  proof
    assume "snd (post_ticket b body files newId now d) = d"
    with f PostTicket show ?thesis using stampsKept_refl by auto
  next
    assume "\<exists>usr cat. newId \<notin> t_id ` set (tickets d)
         \<and> snd (post_ticket b body files newId now d) =
             d\<lparr>tickets := tickets d @ [Ticket_create newId now usr body cat files]\<rparr>"
    then obtain usr cat where "snd (post_ticket b body files newId now d) =
             d\<lparr>tickets := tickets d @ [Ticket_create newId now usr body cat files]\<rparr>"
      by blast
    with PostTicket have "tickets (step r d) = tickets d @ [Ticket_create newId now usr body cat files]"
      by simp
    with findById_append [OF f] show ?thesis using stampsKept_refl by auto
  qed
next
  case (PutTicket b j body now)
  from put_ticket_effect [of b j body now d] show ?thesis
  proof
    assume "snd (put_ticket b j body now d) = d"
    with f PutTicket show ?thesis using stampsKept_refl by auto
  next
    assume "\<exists>usr t t1. protect (users d) b = Inr usr \<and> Ticket_findById (tickets d) j = Inr (Some t)
         \<and> applyUpdate usr body t = Some t1
         \<and> snd (put_ticket b j body now d) = d\<lparr>tickets := replaceTicket (Ticket_save now t t1) (tickets d)\<rparr>"
    then obtain usr t0 t1 where p: "protect (users d) b = Inr usr"
      and g: "Ticket_findById (tickets d) j = Inr (Some t0)"
      and a: "applyUpdate usr body t0 = Some t1"
      and e: "snd (put_ticket b j body now d) = d\<lparr>tickets := replaceTicket (Ticket_save now t0 t1) (tickets d)\<rparr>"
      by (elim exE conjE)
    from applyUpdate_shape [OF a] have fr: "t_id t1 = t_id t0" "resolvedAt t1 = resolvedAt t0"
      "closedAt t1 = closedAt t0" by auto
    from fr have "t_id (Ticket_save now t0 t1) = t_id t0" by (simp add: save_frame)
    from findById_replace_kept [OF f g this stampsKept_save] fr e PutTicket
    show ?thesis by simp
  qed
next
  case (PostComment b j body now)
  from post_comment_effect [of b j body now d] show ?thesis
  proof
    assume "snd (post_comment b j body now d) = d"
    with f PostComment show ?thesis using stampsKept_refl by auto
  next
    assume "\<exists>usr t c. protect (users d) b = Inr usr \<and> Ticket_findById (tickets d) j = Inr (Some t)
         \<and> snd (post_comment b j body now d) =
             d\<lparr>tickets := replaceTicket (Ticket_save now t (t\<lparr>comments := comments t @ [c]\<rparr>)) (tickets d)\<rparr>"
    then obtain usr t0 c where p: "protect (users d) b = Inr usr"
      and g: "Ticket_findById (tickets d) j = Inr (Some t0)"
      and e: "snd (post_comment b j body now d) =
             d\<lparr>tickets := replaceTicket (Ticket_save now t0 (t0\<lparr>comments := comments t0 @ [c]\<rparr>)) (tickets d)\<rparr>"
      by (elim exE conjE)
    have "t_id (Ticket_save now t0 (t0\<lparr>comments := comments t0 @ [c]\<rparr>)) = t_id t0"
      by (simp add: save_frame)
    from findById_replace_kept [OF f g this stampsKept_save] e PostComment
    show ?thesis by simp
  qed
next
  case (PostVote b j v now)
  from post_vote_effect [of b j v now d] show ?thesis
  proof
    assume "snd (post_vote b j v now d) = d"
    with f PostVote show ?thesis using stampsKept_refl by auto
  next
    assume "\<exists>usr t t1. protect (users d) b = Inr usr \<and> Ticket_findById (tickets d) j = Inr (Some t)
         \<and> castVote t (u_id usr) v = Inr t1
         \<and> snd (post_vote b j v now d) = d\<lparr>tickets := replaceTicket (Ticket_save now t t1) (tickets d)\<rparr>"
    then obtain usr t0 t1 where p: "protect (users d) b = Inr usr"
      and g: "Ticket_findById (tickets d) j = Inr (Some t0)"
      and a: "castVote t0 (u_id usr) v = Inr t1"
      and e: "snd (post_vote b j v now d) = d\<lparr>tickets := replaceTicket (Ticket_save now t0 t1) (tickets d)\<rparr>"
      by (elim exE conjE)
    from castVote_frame [OF a] have fr: "t_id t1 = t_id t0" "resolvedAt t1 = resolvedAt t0"
      "closedAt t1 = closedAt t0" by auto
    from fr have "t_id (Ticket_save now t0 t1) = t_id t0" by (simp add: save_frame)
    from findById_replace_kept [OF f g this stampsKept_save] fr e PostVote
    show ?thesis by simp
  qed
next
  case (DeleteTicket b j)
  with nd show ?thesis by simp
qed

lemma run_stampsKept:
  assumes "\<forall>r \<in> set rs. \<not> isDelete r" and "Ticket_findById (tickets d) i = Inr (Some t)"
  shows "\<exists>t'. Ticket_findById (tickets (run rs d)) i = Inr (Some t') \<and> stampsKept t t'"
  using assms unfolding run_def
proof (induction rs arbitrary: d t)
  case Nil
  then show ?case using stampsKept_refl by auto
next
  case (Cons r rs)
  from Cons.prems have "\<not> isDelete r" by simp
  from step_stampsKept [OF this Cons.prems(2)] obtain t1
    where f1: "Ticket_findById (tickets (step r d)) i = Inr (Some t1)" and k1: "stampsKept t t1"
    by blast
  from Cons.prems have "\<forall>r \<in> set rs. \<not> isDelete r" by simp
  from Cons.IH [OF this f1] obtain t' where
    "Ticket_findById (tickets (foldl (\<lambda>s r. step r s) (step r d) rs)) i = Inr (Some t')"
    and "stampsKept t1 t'" by blast
  with k1 show ?case using stampsKept_trans by auto
qed


section \<open>Access control and updates\<close>

lemma protect_found: "protect us b = Inr usr \<Longrightarrow> User_findById us (u_id usr) = Some usr"
  by (auto simp: protect_def User_findById_def find_Some_iff
      split: bearer.splits option.splits if_splits)

lemma User_findById_id: "User_findById us k = Some u \<Longrightarrow> u_id u = k"
  by (auto simp: User_findById_def find_Some_iff)

lemma canAccessTicket_eq:
  assumes f: "Ticket_findById ts i = Inr (Some t)"
      and c: "User_findById us (createdBy t) = Some creator"
      and u: "User_findById us (u_id usr) = Some usr"
  shows "canAccessTicket us ts usr i =
           (if createdBy t = u_id usr \<or> assignedTo t = Some (u_id usr)
               \<or> u_role usr = ''admin'' \<or> u_role usr = ''agent''
            then Inr t else Inl (Http 403 ''Not authorized to access this ticket''))"
proof -
  define isA where "isA = (case assignedTo t of None \<Rightarrow> False
            | Some a \<Rightarrow> (case User_findById us a of None \<Rightarrow> False
                          | Some assignee \<Rightarrow> u_id assignee = u_id usr))"
  have o: "(u_id creator = u_id usr) = (createdBy t = u_id usr)"
    using User_findById_id [OF c] by simp
  have a: "isA = (assignedTo t = Some (u_id usr))"
    unfolding isA_def using u by (auto split: option.splits dest: User_findById_id)
  have "canAccessTicket us ts usr i =
           (if u_id creator = u_id usr \<or> isA \<or> u_role usr = ''admin'' \<or> u_role usr = ''agent''
            then Inr t else Inl (Http 403 ''Not authorized to access this ticket''))"
    unfolding canAccessTicket_def isA_def Let_def
    by (simp only: f c sum.case option.case)
  then show ?thesis by (simp only: a o)
qed




lemma applyUpdate_eq:
  "\<exists>t5. applyUpdate usr body t =
      (if (u_role usr = ''agent'' \<or> u_role usr = ''admin'' \<or> assignedTo t = Some (u_id usr))
           \<and> truthy (b_assignedTo body) \<and> castObjectId (the (b_assignedTo body)) = None
         then None
         else if truthy (b_category body)
         then (case castObjectId (the (b_category body)) of
                 None \<Rightarrow> None
               | Some c \<Rightarrow> Some (t5\<lparr>category := c\<rparr>))
         else Some t5)"
  unfolding applyUpdate_def Let_def by (rule exI) (rule refl)


lemma put_ticket_ok:
  assumes p: "protect (users d) b = Inr usr"
      and f: "Ticket_findById (tickets d) i = Inr (Some t)"
      and c: "User_findById (users d) (createdBy t) = Some creator"
      and valid: "validateUpdate body = []"
      and acc: "createdBy t = u_id usr \<or> assignedTo t = Some (u_id usr)
                \<or> u_role usr = ''admin'' \<or> u_role usr = ''agent''"
      and own: "\<not> (u_role usr = ''user'' \<and> createdBy t \<noteq> u_id usr)"
      and a: "applyUpdate usr body t = Some t1"
  shows "put_ticket b i body now d =
           (Inr (Ticket_save now t t1),
            d\<lparr>tickets := replaceTicket (Ticket_save now t t1) (tickets d)\<rparr>)"
  using acc own
  by (simp add: put_ticket_def p f valid a Let_def canAccessTicket_eq [OF f c protect_found [OF p]])






text \<open>
  Outside the validators' domain: a request with read access whose body fails a check is
  answered 400 with the failed checks, and nothing is written.
\<close>

lemma invalid_update_rejected:
  assumes "protect (users d) b = Inr usr"
      and "canAccessTicket (users d) (tickets d) usr i = Inr t"
      and "validateUpdate body \<noteq> []"
  shows "put_ticket b i body now d = (Inl (ValidationErrors (validateUpdate body)), d)"
  using assms by (simp add: put_ticket_def)

lemma invalid_comment_rejected:
  assumes "protect (users d) b = Inr usr"
      and "canAccessTicket (users d) (tickets d) usr i = Inr t"
      and "validateComment body \<noteq> []"
  shows "post_comment b i body now d = (Inl (ValidationErrors (validateComment body)), d)"
  using assms by (simp add: post_comment_def)

section \<open>Updates and comments on the example store\<close>

lemma creator_alice: "User_findById staff 161 = Some alice"
  by (simp add: User_findById_def staff_def alice_def)


lemma printer_fields:
  "createdBy printer = 161" "assignedTo printer = None" "status printer = ''open''"
  "priority printer = ''medium''" "subject printer = ''Printer is broken''"
  "description printer = ''The printer on floor 2 jams.''" "comments printer = []"
  by (simp_all add: printer_def)

lemma user_fields:
  "u_id alice = 161" "u_role alice = ''user''" "u_id bob = 178" "u_role bob = ''agent''"
  "u_id carol = 195" "u_role carol = ''admin''" "u_id dave = 212" "u_role dave = ''user''"
  by (simp_all add: alice_def bob_def carol_def dave_def)




lemma statusBody_fields:
  "b_subject (noUpdate\<lparr>b_status := Some s\<rparr>) = None"
  "b_description (noUpdate\<lparr>b_status := Some s\<rparr>) = None"
  "b_status (noUpdate\<lparr>b_status := Some s\<rparr>) = Some s"
  "b_priority (noUpdate\<lparr>b_status := Some s\<rparr>) = None"
  "b_assignedTo (noUpdate\<lparr>b_status := Some s\<rparr>) = None"
  "b_category (noUpdate\<lparr>b_status := Some s\<rparr>) = None"
  by (simp_all add: noUpdate_def)

lemma validate_statusBody:
  "s \<in> set statuses \<Longrightarrow> validateUpdate (noUpdate\<lparr>b_status := Some s\<rparr>) = []"
  by (simp add: validateUpdate_def optionalCheck_def statusBody_fields)

lemma applyUpdate_status:
  assumes "u_role usr = ''agent''" and "s \<noteq> []"
  shows "applyUpdate usr (noUpdate\<lparr>b_status := Some s\<rparr>) t = Some (t\<lparr>status := s\<rparr>)"
  using assms by (simp add: applyUpdate_def Let_def statusBody_fields)

lemma put_status_agent:
  assumes p: "protect (users d) b = Inr usr"
      and f: "Ticket_findById (tickets d) i = Inr (Some t)"
      and c: "User_findById (users d) (createdBy t) = Some creator"
      and r: "u_role usr = ''agent''"
      and s: "s \<in> set statuses"
  shows "snd (put_ticket b i (noUpdate\<lparr>b_status := Some s\<rparr>) now d)
           = d\<lparr>tickets := replaceTicket (Ticket_save now t (t\<lparr>status := s\<rparr>)) (tickets d)\<rparr>"
proof -
  from s have ne: "s \<noteq> []" by (auto simp: statuses_def)
  from put_ticket_ok [OF p f c validate_statusBody [OF s] _ _ applyUpdate_status [OF r ne], of now] r
  show ?thesis by simp
qed

lemma tickets_storesR:
  "tickets storeR = [printer\<lparr>status := ''resolved'', updatedAt := 110, resolvedAt := Some 110\<rparr>]"
  "tickets storeO = [printer\<lparr>status := ''open'', updatedAt := 120, resolvedAt := Some 110\<rparr>]"
  "tickets storeR2 = [printer\<lparr>status := ''resolved'', updatedAt := 130, resolvedAt := Some 110\<rparr>]"
  "users storeR = staff" "users storeO = staff" "users storeR2 = staff"
  by (simp_all add: storeR_def storeO_def storeR2_def store0_def)

lemma resolve_printer:
  "snd (put_ticket (Verified 178) printerId resolveBody 110 store1) = storeR"
proof -
  have p: "protect (users store1) (Verified 178) = Inr bob"
    by (simp add: users_stores protect_bob)
  have c: "User_findById (users store1) (createdBy printer) = Some alice"
    by (simp add: users_stores printer_fields creator_alice)
  have s: "Ticket_save 110 printer (printer\<lparr>status := ''resolved''\<rparr>)
             = printer\<lparr>status := ''resolved'', updatedAt := 110, resolvedAt := Some 110\<rparr>"
    by (simp add: Ticket_save_def preSave_def printer_def)
  have r: "u_role bob = ''agent''" and st: "''resolved'' \<in> set statuses"
    by (simp_all add: user_fields statuses_def)
  have "snd (put_ticket (Verified 178) printerId resolveBody 110 store1)
          = store1\<lparr>tickets := replaceTicket
               (printer\<lparr>status := ''resolved'', updatedAt := 110, resolvedAt := Some 110\<rparr>)
               (tickets store1)\<rparr>"
    using put_status_agent [OF p find_printer c r st, of 110] by (simp only: s resolveBody_def)
  then show ?thesis
    by (simp add: store1_def storeR_def replaceTicket_def printer_def)
qed

lemma reopen_printer:
  "snd (put_ticket (Verified 178) printerId reopenBody 120 storeR) = storeO"
proof -
  let ?t = "printer\<lparr>status := ''resolved'', updatedAt := 110, resolvedAt := Some 110\<rparr>"
  have p: "protect (users storeR) (Verified 178) = Inr bob"
    by (simp add: tickets_storesR protect_bob)
  have f: "Ticket_findById (tickets storeR) printerId = Inr (Some ?t)"
    by (simp add: tickets_storesR find_single printer_id)
  have c: "User_findById (users storeR) (createdBy ?t) = Some alice"
    by (simp add: tickets_storesR printer_fields creator_alice)
  have s: "Ticket_save 120 ?t (?t\<lparr>status := ''open''\<rparr>)
             = printer\<lparr>status := ''open'', updatedAt := 120, resolvedAt := Some 110\<rparr>"
    by (simp add: Ticket_save_def preSave_def printer_def)
  have r: "u_role bob = ''agent''" and st: "''open'' \<in> set statuses"
    by (simp_all add: user_fields statuses_def)
  have "snd (put_ticket (Verified 178) printerId reopenBody 120 storeR)
          = storeR\<lparr>tickets := replaceTicket
               (printer\<lparr>status := ''open'', updatedAt := 120, resolvedAt := Some 110\<rparr>)
               (tickets storeR)\<rparr>"
    using put_status_agent [OF p f c r st, of 120] by (simp only: s reopenBody_def)
  then show ?thesis
    by (simp add: storeO_def storeR_def replaceTicket_def printer_def)
qed

lemma resolve_again_printer:
  "snd (put_ticket (Verified 178) printerId resolveBody 130 storeO) = storeR2"
proof -
  let ?t = "printer\<lparr>status := ''open'', updatedAt := 120, resolvedAt := Some 110\<rparr>"
  have p: "protect (users storeO) (Verified 178) = Inr bob"
    by (simp add: tickets_storesR protect_bob)
  have f: "Ticket_findById (tickets storeO) printerId = Inr (Some ?t)"
    by (simp add: tickets_storesR find_single printer_id)
  have c: "User_findById (users storeO) (createdBy ?t) = Some alice"
    by (simp add: tickets_storesR printer_fields creator_alice)
  have s: "Ticket_save 130 ?t (?t\<lparr>status := ''resolved''\<rparr>)
             = printer\<lparr>status := ''resolved'', updatedAt := 130, resolvedAt := Some 110\<rparr>"
    by (simp add: Ticket_save_def preSave_def printer_def)
  have r: "u_role bob = ''agent''" and st: "''resolved'' \<in> set statuses"
    by (simp_all add: user_fields statuses_def)
  have "snd (put_ticket (Verified 178) printerId resolveBody 130 storeO)
          = storeO\<lparr>tickets := replaceTicket
               (printer\<lparr>status := ''resolved'', updatedAt := 130, resolvedAt := Some 110\<rparr>)
               (tickets storeO)\<rparr>"
    using put_status_agent [OF p f c r st, of 130] by (simp only: s resolveBody_def)
  then show ?thesis
    by (simp add: storeO_def storeR2_def replaceTicket_def printer_def)
qed

lemma run_cycle: "run cycle storeR = storeR2"
  by (simp add: run_def cycle_def reopen_printer resolve_again_printer)





lemma first_resolve_stamps:
  assumes "status orig \<noteq> ''resolved''" and "status doc = ''resolved''" and "resolvedAt doc = None"
  shows "resolvedAt (Ticket_save now orig doc) = Some now"
  using assms by (cases "doc = orig") (auto simp: Ticket_save_def preSave_def)

lemma first_close_stamps:
  assumes "status orig \<noteq> ''closed''" and "status doc = ''closed''" and "closedAt doc = None"
  shows "closedAt (Ticket_save now orig doc) = Some now"
  using assms by (cases "doc = orig") (auto simp: Ticket_save_def preSave_def)

section \<open>Listing tickets and creating categories\<close>

lemma cast_aliceId: "castObjectId aliceId = Some 161"
  by (simp add: castObjectId_def aliceId_def isObjectIdHex_def hexDigit_def hexValue_def)

lemma buildFilter_override:
  "buildFilter dave (noQuery\<lparr>q_createdBy := Some aliceId\<rparr>)
     = Some \<lparr>m_createdBy = Some 161, m_assignedTo = None, m_status = None, m_priority = None,
             m_category = None, m_search = None\<rparr>"
proof -
  have t: "aliceId \<noteq> []" by (simp add: aliceId_def)
  show ?thesis
    by (simp add: buildFilter_def Let_def noQuery_def user_fields cast_aliceId t)
qed

lemma buildFilter_user:
  assumes "buildFilter usr q = Some f" and "u_role usr = ''user''" and "\<not> truthy (q_createdBy q)"
  shows "m_createdBy f = Some (u_id usr)"
  using assms by (auto simp: buildFilter_def Let_def split: if_splits)

lemma set_sortTickets: "set (sortTickets k dir ts) = set ts"
  by (simp add: sortTickets_def)

lemma list_scoped:
  assumes p: "protect (users d) b = Inr usr" and r: "u_role usr = ''user''"
      and n: "\<not> truthy (q_createdBy q)"
      and g: "get_tickets b q d = Some (Inr pg)"
  shows "\<forall>t \<in> set (pg_tickets pg). createdBy t = u_id usr"
proof -
  from g p obtain f where bf: "buildFilter usr q = Some f"
    by (auto simp: get_tickets_def Let_def split: option.splits)
  from buildFilter_user [OF bf r n] have m: "m_createdBy f = Some (u_id usr)" .
  from g p bf have "set (pg_tickets pg) \<subseteq> set (filter (matchesFilter f) (tickets d))"
    by (auto simp: get_tickets_def Let_def split: if_splits dest!: in_set_takeD in_set_dropD)
       (simp_all add: set_sortTickets)
  with m show ?thesis by (auto simp: matchesFilter_def holds_def)
qed

lemma validate_dotBody: "validateCategory dotBody = []"
  by (simp add: validateCategory_def requiredCheck_def optionalCheck_def dotBody_def trim_def
      isSpace_def isLength_def)

lemma categories_store1: "categories store1 = [general]" "c_name general = ''abc''"
  by (simp_all add: store1_def store0_def general_def)

lemma matchExact_literal:
  "CHR ''.'' \<notin> set p \<Longrightarrow> matchExact p s = (map toUpper p = map toUpper s)"
  by (induction p s rule: matchExact.induct) (auto simp: atomMatch_def)

lemma literal_name_conflict:
  assumes p: "protect (users d) b = Inr usr" and r: "u_role usr = ''admin''"
      and v: "validateCategory body = []"
      and lit: "set (trim (the (cg_name body))) \<inter> set syntaxChars = {}"
      and ascii: "\<forall>c \<in> set (trim (the (cg_name body))). (of_char c :: nat) < 128"
      and nl: "\<forall>c \<in> set (categories d). c_name c = [] \<or> last (c_name c) \<noteq> CHR 0x0A"
  shows "(post_category b body newId d = Some (Inl (Http 400 ''Category already exists''), d))
           = (\<exists>c \<in> set (categories d). sameNameIgnoringCase (trim (the (cg_name body))) (c_name c))"
proof -
  let ?n = "trim (the (cg_name body))"
  from lit ascii have fr: "inFragment ?n"
    by (auto simp: inFragment_def list_all_iff)
  from lit have nd: "CHR ''.'' \<notin> set ?n"
    by (auto simp: syntaxChars_def)
  have m: "matchAnchored ?n (c_name c) = sameNameIgnoringCase ?n (c_name c)"
    if "c \<in> set (categories d)" for c
    using nl that by (auto simp: matchAnchored_def sameNameIgnoringCase_def matchExact_literal [OF nd])
  have f: "(find (\<lambda>c. matchAnchored ?n (c_name c)) (categories d) = None)
            = (\<not> (\<exists>c \<in> set (categories d). sameNameIgnoringCase ?n (c_name c)))"
    using m by (auto simp: find_None_iff)
  show ?thesis
  proof (cases "find (\<lambda>c. matchAnchored ?n (c_name c)) (categories d)")
    case None
    with f p r v fr show ?thesis
      by (auto simp: post_category_def authorize_def Let_def serverError_def)
  next
    case (Some c)
    with f p r v fr show ?thesis
      by (auto simp: post_category_def authorize_def Let_def)
  qed
qed

lemma cast_daveId: "castObjectId daveId = Some 212"
  by (simp add: castObjectId_def daveId_def isObjectIdHex_def hexDigit_def hexValue_def)

lemma assignBody_fields:
  "b_subject (noUpdate\<lparr>b_assignedTo := Some a\<rparr>) = None"
  "b_description (noUpdate\<lparr>b_assignedTo := Some a\<rparr>) = None"
  "b_status (noUpdate\<lparr>b_assignedTo := Some a\<rparr>) = None"
  "b_priority (noUpdate\<lparr>b_assignedTo := Some a\<rparr>) = None"
  "b_assignedTo (noUpdate\<lparr>b_assignedTo := Some a\<rparr>) = Some a"
  "b_category (noUpdate\<lparr>b_assignedTo := Some a\<rparr>) = None"
  by (simp_all add: noUpdate_def)

lemma assign_dave:
  "snd (put_ticket (Verified 178) printerId (noUpdate\<lparr>b_assignedTo := Some daveId\<rparr>) 104 store1)
     = storeA"
proof -
  let ?body = "noUpdate\<lparr>b_assignedTo := Some daveId\<rparr>"
  have p: "protect (users store1) (Verified 178) = Inr bob"
    by (simp add: users_stores protect_bob)
  have c: "User_findById (users store1) (createdBy printer) = Some alice"
    by (simp add: users_stores printer_fields creator_alice)
  have ne: "daveId \<noteq> []" and mid: "isMongoId daveId"
    by (simp_all add: daveId_def isMongoId_def isHexadecimal_def isHexDigits_def hexDigit_def)
  have v: "validateUpdate ?body = []"
    by (simp add: validateUpdate_def optionalCheck_def assignBody_fields mid)
  have a: "applyUpdate bob ?body printer = Some (printer\<lparr>assignedTo := Some 212\<rparr>)"
    by (simp add: applyUpdate_def Let_def assignBody_fields user_fields ne cast_daveId)
  have s: "Ticket_save 104 printer (printer\<lparr>assignedTo := Some 212\<rparr>)
             = printer\<lparr>assignedTo := Some 212, updatedAt := 104\<rparr>"
    by (simp add: Ticket_save_def preSave_def printer_def)
  have acc: "createdBy printer = u_id bob \<or> assignedTo printer = Some (u_id bob)
              \<or> u_role bob = ''admin'' \<or> u_role bob = ''agent''"
    and own: "\<not> (u_role bob = ''user'' \<and> createdBy printer \<noteq> u_id bob)"
    by (simp_all add: user_fields)
  have "snd (put_ticket (Verified 178) printerId ?body 104 store1)
          = store1\<lparr>tickets := replaceTicket (printer\<lparr>assignedTo := Some 212, updatedAt := 104\<rparr>)
                                 (tickets store1)\<rparr>"
    using put_ticket_ok [OF p find_printer c v acc own a, of 104] by (simp only: s snd_conv)
  then show ?thesis
    by (simp add: store1_def storeA_def replaceTicket_def printer_def)
qed


lemma put_ticket_cast_error:
  assumes p: "protect (users d) b = Inr usr"
      and f: "Ticket_findById (tickets d) i = Inr (Some t)"
      and c: "User_findById (users d) (createdBy t) = Some creator"
      and valid: "validateUpdate body = []"
      and acc: "createdBy t = u_id usr \<or> assignedTo t = Some (u_id usr)
                \<or> u_role usr = ''admin'' \<or> u_role usr = ''agent''"
      and own: "\<not> (u_role usr = ''user'' \<and> createdBy t \<noteq> u_id usr)"
      and a: "applyUpdate usr body t = None"
  shows "put_ticket b i body now d = (Inl serverError, d)"
  using acc own
  by (auto simp: put_ticket_def p f valid a Let_def canAccessTicket_eq [OF f c protect_found [OF p]])




lemma canAccessTicket_orphan:
  assumes "Ticket_findById ts i = Inr (Some t)" and "User_findById us (createdBy t) = None"
  shows "canAccessTicket us ts usr i = Inl serverError"
  using assms by (simp add: canAccessTicket_def)

text \<open>
  Where the validators and the cast differ: an id with the prefix \<open>0x\<close> passes
  \<^verbatim>\<open>isMongoId\<close> and fails the cast, so an agent's update that assigns it is answered
  500; content that is only a no-break space is empty once trimmed.
\<close>

lemma prefixedId_validator: "isMongoId prefixedId" "castObjectId prefixedId = None"
  by (simp_all add: prefixedId_def isMongoId_def isHexadecimal_def isHexDigits_def hexDigit_def
      castObjectId_def isObjectIdHex_def)

lemma nbsp_content_rejected:
  "validateComment \<lparr>cb_content = Some [CHR 0xA0], cb_isInternal = None\<rparr>
     = [''Comment content is required'']"
  by (simp add: validateComment_def trim_def isSpace_def isLength_def)

lemma applyUpdate_None_assignedTo:
  assumes "u_role usr = ''agent'' \<or> u_role usr = ''admin'' \<or> assignedTo t = Some (u_id usr)"
      and "truthy (b_assignedTo body)" and "castObjectId (the (b_assignedTo body)) = None"
  shows "applyUpdate usr body t = None"
proof -
  from applyUpdate_eq [of usr body t] obtain t5 where eq: "applyUpdate usr body t =
      (if (u_role usr = ''agent'' \<or> u_role usr = ''admin'' \<or> assignedTo t = Some (u_id usr))
           \<and> truthy (b_assignedTo body) \<and> castObjectId (the (b_assignedTo body)) = None
         then None
         else if truthy (b_category body)
         then (case castObjectId (the (b_category body)) of
                 None \<Rightarrow> None
               | Some c \<Rightarrow> Some (t5\<lparr>category := c\<rparr>))
         else Some t5)" by blast
  show ?thesis unfolding eq using assms by simp
qed

lemma prefixed_assignee_server_error:
  "validateUpdate (noUpdate\<lparr>b_assignedTo := Some prefixedId\<rparr>) = []"
  "put_ticket (Verified 178) printerId (noUpdate\<lparr>b_assignedTo := Some prefixedId\<rparr>) 104 store1
     = (Inl serverError, store1)"
proof -
  let ?body = "noUpdate\<lparr>b_assignedTo := Some prefixedId\<rparr>"
  have ne: "prefixedId \<noteq> []" by (simp add: prefixedId_def)
  show v: "validateUpdate ?body = []"
    by (simp add: validateUpdate_def optionalCheck_def assignBody_fields prefixedId_validator)
  have p: "protect (users store1) (Verified 178) = Inr bob"
    by (simp add: users_stores protect_bob)
  have c: "User_findById (users store1) (createdBy printer) = Some alice"
    by (simp add: users_stores printer_fields creator_alice)
  have acc: "createdBy printer = u_id bob \<or> assignedTo printer = Some (u_id bob)
              \<or> u_role bob = ''admin'' \<or> u_role bob = ''agent''"
    and own: "\<not> (u_role bob = ''user'' \<and> createdBy printer \<noteq> u_id bob)"
    by (simp_all add: user_fields)
  have a: "applyUpdate bob ?body printer = None"
    by (rule applyUpdate_None_assignedTo)
       (simp_all add: user_fields assignBody_fields ne prefixedId_validator)
  from put_ticket_cast_error [OF p find_printer c v acc own a]
  show "put_ticket (Verified 178) printerId ?body 104 store1 = (Inl serverError, store1)" .
qed

section \<open>The claims\<close>

text \<open>
  C10. A vote request on an existing ticket by an authenticated user whose vote type is
  neither \<open>upvote\<close> nor \<open>downvote\<close> (or is missing) is answered 400 "Invalid vote type",
  and the store, hence every field of every ticket, is left as it was.
\<close>

theorem invalid_vote_rejected:
  assumes "protect (users d) b = Inr usr"
      and "Ticket_findById (tickets d) i = Inr (Some t)"
      and "voteType \<noteq> Some ''upvote''" and "voteType \<noteq> Some ''downvote''"
  shows "post_vote b i voteType now d = (Inl (Http 400 ''Invalid vote type''), d)"
  using assms by (simp add: post_vote_def castVote_def Let_def)

theorem invalid_vote_rejected_witness:
  "protect (users store1) (Verified 212) = Inr dave
   \<and> Ticket_findById (tickets store1) printerId = Inr (Some printer)
   \<and> post_vote (Verified 212) printerId (Some ''sideways'') 101 store1
       = (Inl (Http 400 ''Invalid vote type''), store1)"
proof -
  have p: "protect (users store1) (Verified 212) = Inr dave"
    by (simp add: users_stores protect_dave)
  have "Some ''sideways'' \<noteq> Some ''upvote''" and "Some ''sideways'' \<noteq> Some ''downvote''"
    by simp_all
  from invalid_vote_rejected [OF p find_printer this, of 101]
  show ?thesis by (simp add: p find_printer)
qed

text \<open>
  C2. In a store whose tickets all have well-formed vote arrays (an empty store is one,
  and a new ticket has no votes), after every prefix of every sequence of requests
  (votes in either direction by any user, and any other request that writes tickets) no
  ticket has a user id in both its upvotes and its downvotes.
\<close>

theorem votes_stay_disjoint:
  assumes "\<forall>t \<in> set (tickets d). votesOk t"
  shows "\<forall>n. \<forall>t \<in> set (tickets (run (take n rs) d)). set (upvotes t) \<inter> set (downvotes t) = {}"
proof (intro allI ballI)
  fix n t
  assume "t \<in> set (tickets (run (take n rs) d))"
  with run_votesOk [OF assms, of "take n rs"] have "votesOk t" by blast
  then show "set (upvotes t) \<inter> set (downvotes t) = {}" by (simp add: votesOk_def)
qed

theorem votes_stay_disjoint_witness:
  "list_all votesOk (tickets store0)
   \<and> tickets (run (take 3 voteRun) store0) = [printer\<lparr>upvotes := [212], updatedAt := 102\<rparr>]
   \<and> set (upvotes (printer\<lparr>upvotes := [212], updatedAt := 102\<rparr>))
       \<inter> set (downvotes (printer\<lparr>upvotes := [212], updatedAt := 102\<rparr>)) = {}"
proof -
  have h: "\<forall>t \<in> set (tickets store0). votesOk t"
    by (simp add: store0_def)
  from votes_stay_disjoint [OF h, of voteRun, THEN spec, of 3] h
  show ?thesis
    by (simp add: run_voteRun tickets_stores list_all_iff)
qed



text \<open>
  C6 as stated fails: a user who holds a downvote and upvotes twice ends with no vote
  at all, so the downvoter set is not what it was.
\<close>

theorem double_upvote_counterexample:
  "Ticket_findById (tickets store2) printerId
     = Inr (Some (printer\<lparr>downvotes := [212], updatedAt := 101\<rparr>))
   \<and> Ticket_findById
        (tickets (snd (post_vote (Verified 212) printerId (Some ''upvote'') 103
                   (snd (post_vote (Verified 212) printerId (Some ''upvote'') 102 store2)))))
        printerId
       = Inr (Some (printer\<lparr>updatedAt := 103\<rparr>))
   \<and> set (downvotes (printer\<lparr>updatedAt := 103\<rparr>))
       \<noteq> set (downvotes (printer\<lparr>downvotes := [212], updatedAt := 101\<rparr>))"
  by (simp add: vote_up_dave vote_up_again_dave tickets_stores find_single printer_id)
     (simp add: printer_def)

text \<open>
  C6, amended. On a ticket with well-formed vote arrays, two successive votes of one
  user in the same direction leave the set voted on as it was before the first, and
  leave the opposite set as it was except that the user is no longer in it. So both
  sets are restored exactly when the user held no opposite vote.
\<close>

theorem double_vote:
  assumes p: "protect (users d) b = Inr usr"
      and f: "Ticket_findById (tickets d) i = Inr (Some t)"
      and ok: "votesOk t"
      and v: "v = Some ''upvote'' \<or> v = Some ''downvote''"
  shows "\<exists>t'. Ticket_findById
                 (tickets (snd (post_vote b i v now2 (snd (post_vote b i v now1 d))))) i
               = Inr (Some t')
           \<and> (if v = Some ''upvote''
              then set (upvotes t') = set (upvotes t)
                   \<and> set (downvotes t') = set (downvotes t) - {u_id usr}
              else set (downvotes t') = set (downvotes t)
                   \<and> set (upvotes t') = set (upvotes t) - {u_id usr})"
proof -
  from castVote_total [OF v] obtain t1 where c1: "castVote t (u_id usr) v = Inr t1" by blast
  define s where "s = Ticket_save now1 t t1"
  define d1 where "d1 = d\<lparr>tickets := replaceTicket s (tickets d)\<rparr>"
  have e1: "snd (post_vote b i v now1 d) = d1"
    by (simp add: post_vote_ok [OF p f c1] d1_def s_def)
  have ids: "t_id s = t_id t"
    using castVote_frame [OF c1] by (simp add: s_def save_frame)
  have p1: "protect (users d1) b = Inr usr" using p by (simp add: d1_def)
  have f1: "Ticket_findById (tickets d1) i = Inr (Some s)"
    using findById_replaceTicket [OF f ids] by (simp add: d1_def)
  from castVote_total [OF v] obtain t2 where c2: "castVote s (u_id usr) v = Inr t2" by blast
  define s2 where "s2 = Ticket_save now2 s t2"
  have e2: "snd (post_vote b i v now2 d1) = d1\<lparr>tickets := replaceTicket s2 (tickets d1)\<rparr>"
    by (simp add: post_vote_ok [OF p1 f1 c2] s2_def)
  have ids2: "t_id s2 = t_id s"
    using castVote_frame [OF c2] by (simp add: s2_def save_frame)
  have f2: "Ticket_findById (tickets (snd (post_vote b i v now2 (snd (post_vote b i v now1 d))))) i
              = Inr (Some s2)"
    using findById_replaceTicket [OF f1 ids2] by (simp add: e1 e2)
  have su: "upvotes s = upvotes t1" and sd: "downvotes s = downvotes t1"
    by (simp_all add: s_def save_frame)
  have s2u: "upvotes s2 = upvotes t2" and s2d: "downvotes s2 = downvotes t2"
    by (simp_all add: s2_def save_frame)
  from v have "if v = Some ''upvote''
              then set (upvotes s2) = set (upvotes t)
                   \<and> set (downvotes s2) = set (downvotes t) - {u_id usr}
              else set (downvotes s2) = set (downvotes t)
                   \<and> set (upvotes s2) = set (upvotes t) - {u_id usr}"
  proof
    assume u: "v = Some ''upvote''"
    with castVote_twice_up [OF ok _ su sd, of "u_id usr" t2] c1 c2 s2u s2d
    show ?thesis by simp
  next
    assume dn: "v = Some ''downvote''"
    with castVote_twice_down [OF ok _ su sd, of "u_id usr" t2] c1 c2 s2u s2d
    show ?thesis by simp
  qed
  with f2 show ?thesis by blast
qed

theorem double_vote_witness:
  "protect (users store1) (Verified 212) = Inr dave
   \<and> Ticket_findById (tickets store1) printerId = Inr (Some printer)
   \<and> votesOk printer
   \<and> (\<exists>t'. Ticket_findById
               (tickets (snd (post_vote (Verified 212) printerId (Some ''upvote'') 103
                          (snd (post_vote (Verified 212) printerId (Some ''upvote'') 102 store1)))))
               printerId = Inr (Some t')
            \<and> set (upvotes t') = set (upvotes printer)
            \<and> set (downvotes t') = set (downvotes printer) - {u_id dave})"
proof -
  have p: "protect (users store1) (Verified 212) = Inr dave"
    by (simp add: users_stores protect_dave)
  have ok: "votesOk printer"
    by (simp add: votesOk_def printer_def)
  have v: "Some ''upvote'' = Some ''upvote'' \<or> Some ''upvote'' = Some ''downvote''"
    by simp
  from double_vote [OF p find_printer ok v, of 103 102] p find_printer ok
  show ?thesis by simp
qed


text \<open>
  C3. Once a ticket's \<open>resolvedAt\<close> (respectively \<open>closedAt\<close>) is set, it has the same
  value after every sequence of requests that does not delete tickets: status changes in
  any order and any number, including leaving \<open>resolved\<close> (\<open>closed\<close>) and entering
  it again, as well as comments, votes and new tickets. The ticket is still stored under
  its id.
\<close>

theorem stamps_never_change:
  assumes "\<forall>r \<in> set rs. \<not> isDelete r"
      and "Ticket_findById (tickets d) i = Inr (Some t)"
  shows "\<exists>t'. Ticket_findById (tickets (run rs d)) i = Inr (Some t')
           \<and> (case resolvedAt t of None \<Rightarrow> True | Some x \<Rightarrow> resolvedAt t' = Some x)
           \<and> (case closedAt t of None \<Rightarrow> True | Some y \<Rightarrow> closedAt t' = Some y)"
  using run_stampsKept [OF assms] by (simp add: stampsKept_def)


theorem stamps_never_change_witness:
  "list_all (\<lambda>r. \<not> isDelete r) cycle
   \<and> Ticket_findById (tickets storeR) printerId
       = Inr (Some (printer\<lparr>status := ''resolved'', updatedAt := 110, resolvedAt := Some 110\<rparr>))
   \<and> Ticket_findById (tickets (run cycle storeR)) printerId
       = Inr (Some (printer\<lparr>status := ''resolved'', updatedAt := 130, resolvedAt := Some 110\<rparr>))"
proof -
  have nd: "\<forall>r \<in> set cycle. \<not> isDelete r"
    by (simp add: cycle_def)
  have f: "Ticket_findById (tickets storeR) printerId
       = Inr (Some (printer\<lparr>status := ''resolved'', updatedAt := 110, resolvedAt := Some 110\<rparr>))"
    by (simp add: tickets_storesR find_single printer_id)
  from stamps_never_change [OF nd f] nd f
  show ?thesis
    by (simp add: run_cycle tickets_storesR find_single printer_id list_all_iff)
qed

text \<open>
  C5 as stated fails: when the ticket's creator is not among the stored users, the
  access check fails on the missing creator and the answer is 500, to an admin as well.
\<close>

theorem orphan_ticket_counterexample:
  "protect (users storeOrphan) (Verified 195) = Inr carol
   \<and> u_role carol = ''admin''
   \<and> Ticket_findById (tickets storeOrphan) printerId = Inr (Some printer)
   \<and> get_ticket (Verified 195) printerId storeOrphan = Inl (Http 500 ''Server error'')"
proof -
  have p: "protect (users storeOrphan) (Verified 195) = Inr carol"
    by (simp add: storeOrphan_def protect_def User_findById_def bob_def carol_def)
  have f: "Ticket_findById (tickets storeOrphan) printerId = Inr (Some printer)"
    by (simp add: storeOrphan_def find_single printer_id)
  have n: "User_findById (users storeOrphan) (createdBy printer) = None"
    by (simp add: storeOrphan_def User_findById_def printer_fields bob_def carol_def dave_def)
  have "get_ticket (Verified 195) printerId storeOrphan = Inl serverError"
    by (simp add: get_ticket_def p canAccessTicket_orphan [OF f n])
  with p f show ?thesis by (simp add: user_fields serverError_def)
qed

text \<open>
  C5, amended. For an authenticated requester and a stored ticket whose creator is a
  stored user, reading the ticket answers the ticket exactly when the requester is its
  creator or its assignee or has role \<open>admin\<close> or \<open>agent\<close>; in every other case the
  answer is 403 "Not authorized to access this ticket".
\<close>

theorem get_ticket_access:
  assumes p: "protect (users d) b = Inr usr"
      and f: "Ticket_findById (tickets d) i = Inr (Some t)"
      and c: "User_findById (users d) (createdBy t) = Some creator"
  shows "get_ticket b i d =
           (if createdBy t = u_id usr \<or> assignedTo t = Some (u_id usr)
               \<or> u_role usr = ''admin'' \<or> u_role usr = ''agent''
            then Inr t else Inl (Http 403 ''Not authorized to access this ticket''))"
  by (simp add: get_ticket_def p f canAccessTicket_eq [OF f c protect_found [OF p]])


theorem get_ticket_access_witness:
  "protect (users store1) (Verified 161) = Inr alice
   \<and> protect (users store1) (Verified 212) = Inr dave
   \<and> Ticket_findById (tickets store1) printerId = Inr (Some printer)
   \<and> User_findById (users store1) (createdBy printer) = Some alice
   \<and> get_ticket (Verified 161) printerId store1 = Inr printer
   \<and> get_ticket (Verified 212) printerId store1
       = Inl (Http 403 ''Not authorized to access this ticket'')"
proof -
  have pa: "protect (users store1) (Verified 161) = Inr alice"
    and pd: "protect (users store1) (Verified 212) = Inr dave"
    by (simp_all add: users_stores protect_alice protect_dave)
  have c: "User_findById (users store1) (createdBy printer) = Some alice"
    by (simp add: users_stores printer_fields creator_alice)
  from get_ticket_access [OF pa find_printer c] get_ticket_access [OF pd find_printer c] pa pd c
  show ?thesis by (simp add: find_printer printer_fields user_fields)
qed









text \<open>
  C4 does not hold of the code. The listing route first restricts a requester of role
  \<open>user\<close> to the tickets they created and then, for a truthy \<open>createdBy\<close> query
  parameter, overwrites that very condition with the parameter: the second plain user
  of the example store, asking for the tickets created by the first, is given the
  first user's ticket.
\<close>

theorem list_createdBy_override:
  "protect (users store1) (Verified 212) = Inr dave
   \<and> u_role dave = ''user''
   \<and> get_tickets (Verified 212) (noQuery\<lparr>q_createdBy := Some aliceId\<rparr>) store1
       = Some (Inr \<lparr>pg_tickets = [printer], pg_currentPage = 1, pg_total = 1\<rparr>)
   \<and> createdBy printer \<noteq> u_id dave"
proof -
  have p: "protect (users store1) (Verified 212) = Inr dave"
    by (simp add: users_stores protect_dave)
  have m: "matchesFilter \<lparr>m_createdBy = Some 161, m_assignedTo = None, m_status = None,
                          m_priority = None, m_category = None, m_search = None\<rparr> printer"
    by (simp add: matchesFilter_def holds_def printer_fields)
  have q: "q_page (noQuery\<lparr>q_createdBy := Some aliceId\<rparr>) = None"
    "q_limit (noQuery\<lparr>q_createdBy := Some aliceId\<rparr>) = None"
    "q_sortBy (noQuery\<lparr>q_createdBy := Some aliceId\<rparr>) = None"
    "q_sortOrder (noQuery\<lparr>q_createdBy := Some aliceId\<rparr>) = None"
    by (simp_all add: noQuery_def)
  have g: "get_tickets (Verified 212) (noQuery\<lparr>q_createdBy := Some aliceId\<rparr>) store1
       = Some (Inr \<lparr>pg_tickets = [printer], pg_currentPage = 1, pg_total = 1\<rparr>)"
    by (simp add: get_tickets_def p buildFilter_override q Let_def holds_def tickets_stores m
        sortTickets_def)
  with p show ?thesis by (simp add: user_fields printer_fields)
qed

text \<open>
  C9 does not hold of the code. The route looks for an existing category whose name
  matches the new name used as a regular expression, unescaped: with a category named
  \<open>abc\<close> stored, creating \<open>a.c\<close> is refused as "Category already exists", although
  the two names differ also when case is ignored.
\<close>

theorem category_dot_conflict:
  "protect (users store1) (Verified 195) = Inr carol
   \<and> u_role carol = ''admin''
   \<and> validateCategory dotBody = []
   \<and> map c_name (categories store1) = [''abc'']
   \<and> \<not> sameNameIgnoringCase ''a.c'' ''abc''
   \<and> post_category (Verified 195) dotBody 13 store1
       = Some (Inl (Http 400 ''Category already exists''), store1)"
proof -
  have p: "protect (users store1) (Verified 195) = Inr carol"
    by (simp add: users_stores protect_carol)
  have n: "trim (the (cg_name dotBody)) = ''a.c''"
    by (simp add: dotBody_def trim_def isSpace_def)
  have fr: "inFragment ''a.c''"
    by (simp add: inFragment_def syntaxChars_def)
  have m: "matchAnchored ''a.c'' ''abc''"
    by (simp add: matchAnchored_def atomMatch_def toUpper_def)
  have d: "\<not> sameNameIgnoringCase ''a.c'' ''abc''"
    by code_simp
  have "post_category (Verified 195) dotBody 13 store1
          = Some (Inl (Http 400 ''Category already exists''), store1)"
    by (simp add: post_category_def p authorize_def user_fields validate_dotBody n fr m
        categories_store1 Let_def)
  with p d show ?thesis
    by (simp add: user_fields validate_dotBody categories_store1)
qed

end
